theory Spec2Isabelle
  imports Main
begin

section \<open>JavaScript values used by the two services\<close>

text \<open>
  The two source files, \<^verbatim>\<open>openai-core.js\<close> (class \<^verbatim>\<open>OpenAIApiService\<close>) and
  \<^verbatim>\<open>openai-responses-core.js\<close> (class \<^verbatim>\<open>OpenAIResponsesApiService\<close>), are embedded
  as follows.
  \<^item> A Node \<^verbatim>\<open>Buffer\<close> (one chunk of the response stream) is a list of bytes; a HOL
    \<open>char\<close> is one byte.
  \<^item> A JavaScript string is a list of UTF-16 code units, each a natural number.
  \<^item> A number read from the configuration is \<open>int option\<close>: \<open>None\<close> is
    \<^verbatim>\<open>undefined\<close> (and the \<^verbatim>\<open>NaN\<close> that arithmetic on it gives). Numbers are
    integers, as the specification has them; JavaScript computes with them exactly
    below \<open>2 ^ 53\<close>.
  \<^item> A JSON value is a \<open>json\<close>; a JSON object keeps its fields in insertion order.
\<close>

type_synonym bytes = string

type_synonym jsstring = "nat list"

datatype json =
    JNull
  | JBool bool
  | JNum int
  | JStr "nat list"
  | JArr "json list"
  | JObj "(string \<times> json) list"

type_synonym obj = "(string \<times> json) list"

text \<open>A string literal of the source: ASCII characters, one code unit each.\<close>

definition utf16 :: "string \<Rightarrow> jsstring" where
  "utf16 s = map of_char s"

text \<open>\<^verbatim>\<open>String.prototype.indexOf\<close> for a single code unit; \<open>None\<close> is \<^verbatim>\<open>-1\<close>.\<close>

fun indexOf :: "nat \<Rightarrow> jsstring \<Rightarrow> nat option" where
  "indexOf c [] = None"
| "indexOf c (x # xs) = (if x = c then Some 0 else map_option Suc (indexOf c xs))"

text \<open>
  \<^verbatim>\<open>String.prototype.trim\<close> removes ECMAScript white space and line terminators from
  both ends: TAB, LF, VT, FF, CR, SP, NBSP, U+1680, U+2000 to U+200A, U+2028, U+2029,
  U+202F, U+205F, U+3000 and U+FEFF.
\<close>

definition js_whitespace :: "nat \<Rightarrow> bool" where
  "js_whitespace c \<longleftrightarrow>
     (9 \<le> c \<and> c \<le> 13) \<or> c = 32 \<or> c = 160 \<or> c = 5760 \<or> (8192 \<le> c \<and> c \<le> 8202) \<or>
     c = 8232 \<or> c = 8233 \<or> c = 8239 \<or> c = 8287 \<or> c = 12288 \<or> c = 65279"

definition trim :: "jsstring \<Rightarrow> jsstring" where
  "trim s = rev (dropWhile js_whitespace (rev (dropWhile js_whitespace s)))"

definition startsWith :: "jsstring \<Rightarrow> jsstring \<Rightarrow> bool" where
  "startsWith s p \<longleftrightarrow> take (length p) s = p"

text \<open>The spread \<^verbatim>\<open>{ ...body, key: v }\<close>: an existing field keeps its place and takes
  the new value, a new field goes last.\<close>

fun obj_set :: "string \<Rightarrow> json \<Rightarrow> obj \<Rightarrow> obj" where
  "obj_set key v [] = [(key, v)]"
| "obj_set key v (p # ps) = (if fst p = key then (key, v) # ps else p # obj_set key v ps)"

fun obj_get :: "obj \<Rightarrow> string \<Rightarrow> json option" where
  "obj_get [] key = None"
| "obj_get (p # ps) key = (if fst p = key then Some (snd p) else obj_get ps key)"

text \<open>\<^verbatim>\<open>a < b\<close> with \<^verbatim>\<open>b\<close> possibly \<^verbatim>\<open>undefined\<close>: a comparison with
  \<^verbatim>\<open>undefined\<close> is false.\<close>

definition js_lt :: "nat \<Rightarrow> int option \<Rightarrow> bool" where
  "js_lt a b = (case b of None \<Rightarrow> False | Some m \<Rightarrow> int a < m)"

text \<open>\<^verbatim>\<open>a || d\<close> for a number \<^verbatim>\<open>a\<close>: \<^verbatim>\<open>undefined\<close> and \<^verbatim>\<open>0\<close> are falsy.\<close>

definition js_or :: "int option \<Rightarrow> int \<Rightarrow> int" where
  "js_or a d = (case a of None \<Rightarrow> d | Some n \<Rightarrow> if n = 0 then d else n)"

text \<open>\<^verbatim>\<open>baseDelay * Math.pow(2, retryCount)\<close>; \<open>None\<close> is \<^verbatim>\<open>NaN\<close>.\<close>

definition backoff :: "int option \<Rightarrow> nat \<Rightarrow> int option" where
  "backoff baseDelay retryCount = map_option (\<lambda>b. b * 2 ^ retryCount) baseDelay"

section \<open>The incremental decoder\<close>

text \<open>
  \<^verbatim>\<open>StringDecoder\<close> belongs to Node, not to the repository. The stream code is
  parametric in it: a decoder is a fresh state, \<^verbatim>\<open>write\<close> (the text a chunk
  completes and the state that holds back the rest) and \<^verbatim>\<open>end\<close> (the text for
  what is still held back).
\<close>

record 's decoder =
  dec_new :: 's
  dec_write :: "'s \<Rightarrow> bytes \<Rightarrow> jsstring \<times> 's"
  dec_end :: "'s \<Rightarrow> jsstring"

text \<open>
  What the stream code needs of a decoder: writing two buffers one after the other
  gives the text and the state of writing their concatenation, and an empty buffer
  gives no text and changes nothing.
\<close>

definition incremental :: "'s decoder \<Rightarrow> bool" where
  "incremental dec \<longleftrightarrow>
     (\<forall>s. dec_write dec s [] = ([], s)) \<and>
     (\<forall>s a b. dec_write dec s (a @ b) =
        (case dec_write dec s a of (t1, s1) \<Rightarrow>
           case dec_write dec s1 b of (t2, s2) \<Rightarrow> (t1 @ t2, s2)))"

subsection \<open>A UTF-8 decoder\<close>

text \<open>
  Modelled from the spec: Node's \<^verbatim>\<open>StringDecoder('utf8')\<close> is not in the repository.
  The spec asks for a stateful converter that holds back a trailing incomplete
  multi-byte sequence between chunks. This one reads a byte at a time: \<open>needed\<close> counts
  the continuation bytes still expected, \<open>point\<close> the code point so far, \<open>lower\<close> and
  \<open>upper\<close> the range of the next continuation byte. An ill-formed sequence gives
  U+FFFD and the offending byte is read again as the start of a character. A code
  point beyond U+FFFF becomes a surrogate pair.
\<close>

record utf8_state =
  point :: nat
  needed :: nat
  lower :: nat
  upper :: nat

definition utf8_idle :: utf8_state where
  "utf8_idle = \<lparr>point = 0, needed = 0, lower = 128, upper = 191\<rparr>"

definition code_units :: "nat \<Rightarrow> jsstring" where
  "code_units cp =
     (if cp < 65536 then [cp]
      else [55296 + (cp - 65536) div 1024, 56320 + (cp - 65536) mod 1024])"

definition utf8_lead :: "nat \<Rightarrow> jsstring \<times> utf8_state" where
  "utf8_lead b =
     (if b \<le> 127 then ([b], utf8_idle)
      else if 194 \<le> b \<and> b \<le> 223 then
        ([], \<lparr>point = b mod 32, needed = 1, lower = 128, upper = 191\<rparr>)
      else if 224 \<le> b \<and> b \<le> 239 then
        ([], \<lparr>point = b mod 16, needed = 2,
              lower = (if b = 224 then 160 else 128),
              upper = (if b = 237 then 159 else 191)\<rparr>)
      else if 240 \<le> b \<and> b \<le> 244 then
        ([], \<lparr>point = b mod 8, needed = 3,
              lower = (if b = 240 then 144 else 128),
              upper = (if b = 244 then 143 else 191)\<rparr>)
      else ([65533], utf8_idle))"

definition utf8_step :: "utf8_state \<Rightarrow> nat \<Rightarrow> jsstring \<times> utf8_state" where
  "utf8_step st b =
     (if needed st = 0 then utf8_lead b
      else if lower st \<le> b \<and> b \<le> upper st then
        (if needed st = 1 then (code_units (point st * 64 + b mod 64), utf8_idle)
         else ([], \<lparr>point = point st * 64 + b mod 64, needed = needed st - 1,
                    lower = 128, upper = 191\<rparr>))
      else (65533 # fst (utf8_lead b), snd (utf8_lead b)))"

fun utf8_write :: "utf8_state \<Rightarrow> bytes \<Rightarrow> jsstring \<times> utf8_state" where
  "utf8_write st [] = ([], st)"
| "utf8_write st (b # bs) =
     (case utf8_step st (of_char b) of (t, st') \<Rightarrow>
        case utf8_write st' bs of (ts, st'') \<Rightarrow> (t @ ts, st''))"

definition utf8_end :: "utf8_state \<Rightarrow> jsstring" where
  "utf8_end st = (if needed st = 0 then [] else [65533])"

definition utf8_decoder :: "utf8_state decoder" where
  "utf8_decoder = \<lparr>dec_new = utf8_idle, dec_write = utf8_write, dec_end = utf8_end\<rparr>"

section \<open>The stream decoding loop of \<^verbatim>\<open>streamApi\<close>\<close>

text \<open>
  \<^verbatim>\<open>JSON.parse\<close> is the platform's: the loop takes it as a parameter \<open>parse\<close>, with
  \<open>None\<close> for a thrown \<^verbatim>\<open>SyntaxError\<close>.
\<close>

type_synonym parser = "jsstring \<Rightarrow> json option"

text \<open>What one line does to the session: end it, yield a value, or nothing.\<close>

datatype line_result = Done | Emit json | Skip

text \<open>
  The body of the \<^verbatim>\<open>while\<close> loop for one line (lines 111 to 127 of
  \<^verbatim>\<open>openai-core.js\<close>): \<open>raw\<close> is \<^verbatim>\<open>buffer.substring(0, newlineIndex)\<close>.
\<close>

definition process_line :: "parser \<Rightarrow> jsstring \<Rightarrow> line_result" where
  "process_line parse raw =
     (let line = trim raw in
      if startsWith line (utf16 ''data: '') then
        (let jsonData = trim (drop 6 line) in
         if jsonData = utf16 ''[DONE]'' then Done
         else (case parse jsonData of Some parsedChunk \<Rightarrow> Emit parsedChunk | None \<Rightarrow> Skip))
      else Skip)"

definition yield :: "json \<Rightarrow> json list \<times> jsstring option \<Rightarrow> json list \<times> jsstring option" where
  "yield v r = (v # fst r, snd r)"

text \<open>
  The \<^verbatim>\<open>while ((newlineIndex = buffer.indexOf('\n')) !== -1)\<close> loop: the values
  yielded, and the buffer left when no newline remains; \<open>None\<close> when a
  \<^verbatim>\<open>[DONE]\<close> line made the generator return.
\<close>

function drain :: "parser \<Rightarrow> jsstring \<Rightarrow> json list \<times> jsstring option" where
  "drain parse buffer =
     (case indexOf 10 buffer of
        None \<Rightarrow> ([], Some buffer)
      | Some newlineIndex \<Rightarrow>
          (case process_line parse (take newlineIndex buffer) of
             Done \<Rightarrow> ([], None)
           | Emit parsedChunk \<Rightarrow> yield parsedChunk (drain parse (drop (newlineIndex + 1) buffer))
           | Skip \<Rightarrow> drain parse (drop (newlineIndex + 1) buffer)))"
  by pat_completeness auto
termination
proof -
  have less: "i < length s" if "indexOf c s = Some i" for c :: nat and s i
    using that by (induction s arbitrary: i) (auto split: if_splits)
  show ?thesis
    by (relation "measure (\<lambda>(parse, buffer). length buffer)") (auto dest: less)
qed

declare drain.simps [simp del]

text \<open>
  After the loop (lines 133 to 152): \<open>buffer\<close> already holds \<^verbatim>\<open>decoder.end()\<close>.
  Both files do the same here; one writes the \<^verbatim>\<open>[DONE]\<close> test positively with an
  empty branch, the other negatively.
\<close>

definition final_line :: "parser \<Rightarrow> jsstring \<Rightarrow> json list" where
  "final_line parse buffer =
     (if length buffer > 0 then
        (let line = trim buffer in
         if startsWith line (utf16 ''data: '') then
           (let jsonData = trim (drop 6 line) in
            if jsonData = utf16 ''[DONE]'' then []
            else (case parse jsonData of Some parsedChunk \<Rightarrow> [parsedChunk] | None \<Rightarrow> []))
         else [])
      else [])"

text \<open>
  An error of the transport: \<^verbatim>\<open>error.response?.status\<close> (\<open>None\<close> when there is no
  response) and the message.
\<close>

datatype http_error = HttpError (status: "nat option") (message: string)

text \<open>
  How a decoding session ends: the generator returned at \<^verbatim>\<open>[DONE]\<close>, the stream was
  read to its end, or reading the next chunk threw.
\<close>

datatype ending = Returned | Completed | Threw http_error

record session =
  yielded :: "json list"
  ended :: ending
  pulled :: nat

definition after :: "json list \<Rightarrow> session \<Rightarrow> session" where
  "after evs s = s\<lparr>yielded := evs @ yielded s, pulled := Suc (pulled s)\<rparr>"

text \<open>
  The \<^verbatim>\<open>for await (const chunk of stream)\<close> loop with what follows it (lines 104
  to 152). The stream is the chunks it delivers and, when it breaks after them, the
  error it throws; \<open>pulled\<close> counts the chunks taken from it. A stream that breaks
  skips the code after the loop.
\<close>

fun read_chunks ::
  "'s decoder \<Rightarrow> parser \<Rightarrow> 's \<Rightarrow> jsstring \<Rightarrow> bytes list \<Rightarrow> http_error option \<Rightarrow> session" where
  "read_chunks dec parse st buffer [] broken =
     (case broken of
        Some e \<Rightarrow> \<lparr>yielded = [], ended = Threw e, pulled = 0\<rparr>
      | None \<Rightarrow>
          \<lparr>yielded = final_line parse (buffer @ dec_end dec st), ended = Completed, pulled = 0\<rparr>)"
| "read_chunks dec parse st buffer (chunk # rest) broken =
     (case dec_write dec st chunk of (text, st') \<Rightarrow>
        (case drain parse (buffer @ text) of
           (evs, None) \<Rightarrow> \<lparr>yielded = evs, ended = Returned, pulled = 1\<rparr>
         | (evs, Some buffer') \<Rightarrow> after evs (read_chunks dec parse st' buffer' rest broken)))"

record byte_stream =
  stream_chunks :: "bytes list"
  stream_error :: "http_error option"

definition decode :: "'s decoder \<Rightarrow> parser \<Rightarrow> byte_stream \<Rightarrow> session" where
  "decode dec parse stream = read_chunks dec parse (dec_new dec) [] (stream_chunks stream) (stream_error stream)"

section \<open>Configuration and construction\<close>

text \<open>
  The fields of \<^verbatim>\<open>config\<close> the two classes read; \<open>None\<close> is an unset field.
\<close>

record config =
  OPENAI_API_KEY :: "string option"
  OPENAI_BASE_URL :: "string option"
  REQUEST_MAX_RETRIES :: "int option"
  REQUEST_BASE_DELAY :: "int option"
  USE_SYSTEM_PROXY_OPENAI :: "bool option"

record service =
  svc_config :: config
  apiKey :: string
  baseUrl :: "string option"
  useSystemProxy :: bool

text \<open>\<^verbatim>\<open>!config.OPENAI_API_KEY\<close>: an unset key and the empty string are falsy.\<close>

definition missing_key :: "config \<Rightarrow> bool" where
  "missing_key cfg = (case OPENAI_API_KEY cfg of None \<Rightarrow> True | Some key \<Rightarrow> key = [])"

text \<open>The constructors (lines 9 to 49); \<open>Inl\<close> is the thrown \<^verbatim>\<open>Error\<close>'s message.\<close>

definition new_OpenAIApiService :: "config \<Rightarrow> string + service" where
  "new_OpenAIApiService cfg =
     (if missing_key cfg then Inl ''OpenAI API Key is required for OpenAIApiService.''
      else Inr \<lparr>svc_config = cfg, apiKey = the (OPENAI_API_KEY cfg),
                baseUrl = OPENAI_BASE_URL cfg,
                useSystemProxy = (case USE_SYSTEM_PROXY_OPENAI cfg of None \<Rightarrow> False | Some p \<Rightarrow> p)\<rparr>)"

definition new_OpenAIResponsesApiService :: "config \<Rightarrow> string + service" where
  "new_OpenAIResponsesApiService cfg =
     (if missing_key cfg then Inl ''OpenAI API Key is required for OpenAIResponsesApiService.''
      else Inr \<lparr>svc_config = cfg, apiKey = the (OPENAI_API_KEY cfg),
                baseUrl = (case OPENAI_BASE_URL cfg of
                             None \<Rightarrow> Some ''https://api.openai.com/v1''
                           | Some u \<Rightarrow> if u = [] then Some ''https://api.openai.com/v1'' else Some u),
                useSystemProxy = (case USE_SYSTEM_PROXY_OPENAI cfg of None \<Rightarrow> False | Some p \<Rightarrow> p)\<rparr>)"

section \<open>The request executor\<close>

text \<open>
  The transport (\<^verbatim>\<open>axiosInstance.post\<close>) is outside the repository. It is a function
  of the number of requests it has served, the endpoint and the body sent; it answers
  with the response data or rejects with an error. What a call does to the outside is
  its trace: the requests posted and the delays handed to \<^verbatim>\<open>setTimeout\<close>, in order.
  Console output is left out.
\<close>

type_synonym 'r transport = "nat \<Rightarrow> string \<Rightarrow> obj \<Rightarrow> http_error + 'r"

datatype action = Post string obj | Sleep "int option"

definition followed :: "action list \<Rightarrow> 'a \<times> action list \<Rightarrow> 'a \<times> action list" where
  "followed acts r = (fst r, acts @ snd r)"

text \<open>\<^verbatim>\<open>status >= 500 && status < 600\<close>, false for a missing status.\<close>

definition server_error :: "nat option \<Rightarrow> bool" where
  "server_error st = (case st of None \<Rightarrow> False | Some n \<Rightarrow> 500 \<le> n \<and> n < 600)"

text \<open>
  The body of \<^verbatim>\<open>callApi\<close> after its first two lines (lines 55 to 84), which is the
  same text in both files apart from one log message; \<open>maxRetries\<close> and \<open>baseDelay\<close>
  are the two constants those lines bind, \<open>k\<close> the number of requests the transport
  has served. The parameter \<^verbatim>\<open>isRetry\<close> is handed on and never read; it is left out.
\<close>

function callApi_from ::
  "int option \<Rightarrow> int option \<Rightarrow> json transport \<Rightarrow> nat \<Rightarrow> string \<Rightarrow> obj \<Rightarrow> nat
     \<Rightarrow> (http_error + json) \<times> action list" where
  "callApi_from maxRetries baseDelay post k endpoint body retryCount =
     (case post k endpoint body of
        Inr data \<Rightarrow> (Inr data, [Post endpoint body])
      | Inl error \<Rightarrow>
          if status error = Some 401 \<or> status error = Some 403 then
            (Inl error, [Post endpoint body])
          else if status error = Some 429 \<and> js_lt retryCount maxRetries then
            followed [Post endpoint body, Sleep (backoff baseDelay retryCount)]
              (callApi_from maxRetries baseDelay post (Suc k) endpoint body (Suc retryCount))
          else if server_error (status error) \<and> js_lt retryCount maxRetries then
            followed [Post endpoint body, Sleep (backoff baseDelay retryCount)]
              (callApi_from maxRetries baseDelay post (Suc k) endpoint body (Suc retryCount))
          else (Inl error, [Post endpoint body]))"
  by pat_completeness auto
termination
  by (relation "measure (\<lambda>(maxRetries, baseDelay, post, k, endpoint, body, retryCount).
        nat (the maxRetries - int retryCount))")
     (auto simp: js_lt_def split: option.splits)

declare callApi_from.simps [simp del]

text \<open>\<^verbatim>\<open>OpenAIApiService.callApi\<close>: lines 52 and 53 read the configuration as it is.\<close>

definition OpenAIApiService_callApi ::
  "service \<Rightarrow> json transport \<Rightarrow> nat \<Rightarrow> string \<Rightarrow> obj \<Rightarrow> nat \<Rightarrow> (http_error + json) \<times> action list" where
  "OpenAIApiService_callApi this post k endpoint body retryCount =
     (let maxRetries = REQUEST_MAX_RETRIES (svc_config this);
          baseDelay = REQUEST_BASE_DELAY (svc_config this)
      in callApi_from maxRetries baseDelay post k endpoint body retryCount)"

text \<open>\<^verbatim>\<open>OpenAIResponsesApiService.callApi\<close>: lines 52 and 53 default with \<^verbatim>\<open>||\<close>.\<close>

definition OpenAIResponsesApiService_callApi ::
  "service \<Rightarrow> json transport \<Rightarrow> nat \<Rightarrow> string \<Rightarrow> obj \<Rightarrow> nat \<Rightarrow> (http_error + json) \<times> action list" where
  "OpenAIResponsesApiService_callApi this post k endpoint body retryCount =
     (let maxRetries = Some (js_or (REQUEST_MAX_RETRIES (svc_config this)) 3);
          baseDelay = Some (js_or (REQUEST_BASE_DELAY (svc_config this)) 1000)
      in callApi_from maxRetries baseDelay post k endpoint body retryCount)"

text \<open>
  One attempt of \<^verbatim>\<open>streamApi\<close>, the \<^verbatim>\<open>try\<close> block (lines 94 to 152): the values
  yielded and the error that reached the \<^verbatim>\<open>catch\<close>, if any. The request may be
  rejected, or the stream may break while it is read.
\<close>

definition attempt ::
  "'s decoder \<Rightarrow> parser \<Rightarrow> http_error + byte_stream \<Rightarrow> json list \<times> http_error option" where
  "attempt dec parse response =
     (case response of
        Inl error \<Rightarrow> ([], Some error)
      | Inr stream \<Rightarrow>
          (let s = decode dec parse stream in
           (yielded s, case ended s of Threw error \<Rightarrow> Some error | _ \<Rightarrow> None)))"

definition resume ::
  "json list \<Rightarrow> action list \<Rightarrow> (json list \<times> http_error option) \<times> action list
     \<Rightarrow> (json list \<times> http_error option) \<times> action list" where
  "resume evs acts r = ((evs @ fst (fst r), snd (fst r)), acts @ snd r)"

text \<open>
  The body of \<^verbatim>\<open>streamApi\<close> after its first two lines (lines 92 to 181), the same
  text in both files apart from log messages and comments. The result is the values
  yielded to the caller over all attempts, the error thrown to the caller if any, and
  the trace. \<^verbatim>\<open>yield* this.streamApi(endpoint, body, ...)\<close> hands the caller's
  \<open>body\<close> to the next attempt.
\<close>

function streamApi_from ::
  "int option \<Rightarrow> int option \<Rightarrow> 's decoder \<Rightarrow> parser \<Rightarrow> byte_stream transport \<Rightarrow> nat \<Rightarrow> string
     \<Rightarrow> obj \<Rightarrow> nat \<Rightarrow> (json list \<times> http_error option) \<times> action list" where
  "streamApi_from maxRetries baseDelay dec parse post k endpoint body retryCount =
     (let streamRequestBody = obj_set ''stream'' (JBool True) body;
          tried = attempt dec parse (post k endpoint streamRequestBody)
      in case snd tried of
           None \<Rightarrow> ((fst tried, None), [Post endpoint streamRequestBody])
         | Some error \<Rightarrow>
             if status error = Some 401 \<or> status error = Some 403 then
               ((fst tried, Some error), [Post endpoint streamRequestBody])
             else if status error = Some 429 \<and> js_lt retryCount maxRetries then
               resume (fst tried)
                 [Post endpoint streamRequestBody, Sleep (backoff baseDelay retryCount)]
                 (streamApi_from maxRetries baseDelay dec parse post (Suc k) endpoint body
                    (Suc retryCount))
             else if server_error (status error) \<and> js_lt retryCount maxRetries then
               resume (fst tried)
                 [Post endpoint streamRequestBody, Sleep (backoff baseDelay retryCount)]
                 (streamApi_from maxRetries baseDelay dec parse post (Suc k) endpoint body
                    (Suc retryCount))
             else ((fst tried, Some error), [Post endpoint streamRequestBody]))"
  by pat_completeness auto
termination
  by (relation "measure (\<lambda>(maxRetries, baseDelay, dec, parse, post, k, endpoint, body, retryCount).
        nat (the maxRetries - int retryCount))")
     (auto simp: js_lt_def split: option.splits)

declare streamApi_from.simps [simp del]

definition OpenAIApiService_streamApi ::
  "service \<Rightarrow> 's decoder \<Rightarrow> parser \<Rightarrow> byte_stream transport \<Rightarrow> nat \<Rightarrow> string \<Rightarrow> obj \<Rightarrow> nat
     \<Rightarrow> (json list \<times> http_error option) \<times> action list" where
  "OpenAIApiService_streamApi this dec parse post k endpoint body retryCount =
     (let maxRetries = REQUEST_MAX_RETRIES (svc_config this);
          baseDelay = REQUEST_BASE_DELAY (svc_config this)
      in streamApi_from maxRetries baseDelay dec parse post k endpoint body retryCount)"

definition OpenAIResponsesApiService_streamApi ::
  "service \<Rightarrow> 's decoder \<Rightarrow> parser \<Rightarrow> byte_stream transport \<Rightarrow> nat \<Rightarrow> string \<Rightarrow> obj \<Rightarrow> nat
     \<Rightarrow> (json list \<times> http_error option) \<times> action list" where
  "OpenAIResponsesApiService_streamApi this dec parse post k endpoint body retryCount =
     (let maxRetries = Some (js_or (REQUEST_MAX_RETRIES (svc_config this)) 3);
          baseDelay = Some (js_or (REQUEST_BASE_DELAY (svc_config this)) 1000)
      in streamApi_from maxRetries baseDelay dec parse post k endpoint body retryCount)"

section \<open>Auxiliary definitions\<close>

text \<open>
  The text a decoder has written after a list of chunks, and its state then. This is
  what the successive \<^verbatim>\<open>decoder.write(chunk)\<close> calls of the loop add to the buffer.
\<close>

fun written :: "'s decoder \<Rightarrow> 's \<Rightarrow> bytes list \<Rightarrow> jsstring \<times> 's" where
  "written dec st [] = ([], st)"
| "written dec st (chunk # rest) =
     (case dec_write dec st chunk of (text, st') \<Rightarrow>
        case written dec st' rest of (later, st'') \<Rightarrow> (text @ later, st''))"

text \<open>The requests of a trace, in order: the endpoint and the body of each.\<close>

fun posts :: "action list \<Rightarrow> (string \<times> obj) list" where
  "posts [] = []"
| "posts (Post endpoint body # acts) = (endpoint, body) # posts acts"
| "posts (Sleep delay # acts) = posts acts"

text \<open>\<^verbatim>\<open>trim\<close> is the removal at the start, then at the end; this is the second half.\<close>

definition trimEnd :: "jsstring \<Rightarrow> jsstring" where
  "trimEnd s = rev (dropWhile js_whitespace (rev s))"

subsection \<open>Sample inputs\<close>

text \<open>
  The line \<^verbatim>\<open>data: {"a":"e"}\<close> with U+00E9 for the letter, which is two bytes in
  UTF-8, in one chunk and cut inside the prefix and inside the letter; and a parser
  that knows this one payload.
\<close>

definition accent_payload :: jsstring where
  "accent_payload = utf16 ''{\"a\":\"'' @ [233] @ utf16 ''\"}''"

definition accent_parse :: parser where
  "accent_parse s = (if s = accent_payload then Some (JObj [(''a'', JStr [233])]) else None)"

definition accent_whole :: bytes where
  "accent_whole = ''data: {\"a\":\"'' @ [CHR 0xC3, CHR 0xA9] @ ''\"}'' @ [CHR 0x0A]"

definition accent_parts :: "bytes list" where
  "accent_parts = [''da'', ''ta: {\"a\":\"'' @ [CHR 0xC3], [CHR 0xA9] @ ''\"}'' @ [CHR 0x0A]]"

text \<open>
  Configurations with a key, with and without the retry parameters; the service either
  constructor makes of them; transports that reject the first \<open>n\<close> requests with 429,
  or every request with 401; a request body; a stream of one event.
\<close>

definition unset_config :: config where
  "unset_config = \<lparr>OPENAI_API_KEY = Some ''sk-test'', OPENAI_BASE_URL = Some ''https://example.test/v1'',
     REQUEST_MAX_RETRIES = None, REQUEST_BASE_DELAY = None, USE_SYSTEM_PROXY_OPENAI = None\<rparr>"

definition retry_config :: "int \<Rightarrow> int \<Rightarrow> config" where
  "retry_config m b = unset_config\<lparr>REQUEST_MAX_RETRIES := Some m, REQUEST_BASE_DELAY := Some b\<rparr>"

definition sample_service :: "config \<Rightarrow> service" where
  "sample_service cfg = \<lparr>svc_config = cfg, apiKey = ''sk-test'',
     baseUrl = Some ''https://example.test/v1'', useSystemProxy = False\<rparr>"

definition too_many :: http_error where
  "too_many = HttpError (Some 429) ''Too Many Requests''"

definition unauthorized :: http_error where
  "unauthorized = HttpError (Some 401) ''Unauthorized''"

definition limited :: "nat \<Rightarrow> 'r \<Rightarrow> 'r transport" where
  "limited n data k endpoint body = (if k < n then Inl too_many else Inr data)"

definition denied :: "'r transport" where
  "denied k endpoint body = Inl unauthorized"

definition sample_body :: obj where
  "sample_body = [(''model'', JStr (utf16 ''gpt-4o'')), (''stream'', JBool False)]"

definition one_event :: byte_stream where
  "one_event = \<lparr>stream_chunks = [accent_whole], stream_error = None\<rparr>"

text \<open>
  A parser that knows the two objects of the spec's examples, and one that knows four
  values that are not objects; the chunks of the spec's first example, a chunk that
  comes too late, and a chunk whose payload is not JSON.
\<close>

definition pair_parse :: parser where
  "pair_parse s =
     (if s = utf16 ''{\"a\":1}'' then Some (JObj [(''a'', JNum 1)])
      else if s = utf16 ''{\"x\":2}'' then Some (JObj [(''x'', JNum 2)])
      else None)"

definition scalar_parse :: parser where
  "scalar_parse s =
     (if s = utf16 ''null'' then Some JNull
      else if s = utf16 ''42'' then Some (JNum 42)
      else if s = utf16 ''true'' then Some (JBool True)
      else if s = utf16 ''\"hi\"'' then Some (JStr (utf16 ''hi''))
      else None)"

definition first_half :: bytes where
  "first_half = ''data: {\"a\":''"

definition second_half :: bytes where
  "second_half = ''1}'' @ [CHR 0x0A, CHR 0x0A]"

definition done_chunk :: bytes where
  "done_chunk = ''data: [DONE]'' @ [CHR 0x0A]"

definition late_chunk :: bytes where
  "late_chunk = ''data: {\"x\":2}'' @ [CHR 0x0A]"

definition broken_chunk :: bytes where
  "broken_chunk = ''data: {oops'' @ [CHR 0x0A]"

definition number_chunk :: bytes where
  "number_chunk = ''data: 42'' @ [CHR 0x0A]"

section \<open>Facts about the text operations and the line loop\<close>

lemma indexOf_None: "indexOf c s = None \<longleftrightarrow> c \<notin> set s"
  by (induction s) auto

lemma indexOf_first: "c \<notin> set l \<Longrightarrow> indexOf c (l @ c # rest) = Some (length l)"
  by (induction l) auto

lemma indexOf_split:
  "indexOf c s = Some i \<Longrightarrow> s = take i s @ c # drop (Suc i) s \<and> c \<notin> set (take i s)"
  by (induction s arbitrary: i) (auto split: if_splits)

subsection \<open>Trimming\<close>

lemma trim_trimEnd: "trim s = trimEnd (dropWhile js_whitespace s)"
  by (simp add: trim_def trimEnd_def)

lemma trimEnd_blank: "(\<forall>x\<in>set t. js_whitespace x) \<Longrightarrow> trimEnd (p @ t) = trimEnd p"
  by (simp add: trimEnd_def dropWhile_append)

lemma trimEnd_solid: "\<not> (\<forall>x\<in>set t. js_whitespace x) \<Longrightarrow> trimEnd (p @ t) = p @ trimEnd t"
  by (auto simp: trimEnd_def dropWhile_append)

lemma trimEnd_idem: "trimEnd (trimEnd s) = trimEnd s"
  by (simp add: trimEnd_def)

lemma trimEnd_prefix: "s = trimEnd s @ rev (takeWhile js_whitespace (rev s))"
proof -
  have "trimEnd s @ rev (takeWhile js_whitespace (rev s)) =
      rev (takeWhile js_whitespace (rev s) @ dropWhile js_whitespace (rev s))"
    unfolding trimEnd_def by (rule rev_append [symmetric])
  then show ?thesis by simp
qed

lemma trimEnd_Cons:
  "trimEnd (x # s) = (if \<forall>y\<in>set s. js_whitespace y then (if js_whitespace x then [] else [x])
                      else x # trimEnd s)"
  using trimEnd_blank [of s "[x]"] trimEnd_solid [of s "[x]"]
  by (simp add: trimEnd_def)

lemma trimEnd_Nil_iff: "trimEnd s = [] \<longleftrightarrow> (\<forall>x\<in>set s. js_whitespace x)"
  by (simp add: trimEnd_def)

lemma trimStart_trimEnd:
  "dropWhile js_whitespace (trimEnd s) = trimEnd (dropWhile js_whitespace s)"
proof (induction s)
  case Nil
  show ?case by (simp add: trimEnd_def)
next
  case (Cons x s)
  show ?case
  proof (cases "js_whitespace x")
    case True
    with Cons show ?thesis
      by (auto simp: trimEnd_Cons trimEnd_Nil_iff [symmetric] simp del: dropWhile_eq_Nil_conv)
  next
    case False
    then show ?thesis by (simp add: trimEnd_Cons)
  qed
qed

lemma trim_trimEnd_absorb: "trim (trimEnd s) = trim s"
  by (simp add: trim_trimEnd trimStart_trimEnd trimEnd_idem)

lemma trim_Nil_iff: "trim s = [] \<longleftrightarrow> (\<forall>x\<in>set s. js_whitespace x)"
proof -
  have "set (dropWhile js_whitespace s) \<subseteq> set s" by (rule set_dropWhileD [THEN subsetI])
  show ?thesis
  proof
    assume "trim s = []"
    then have "\<forall>x\<in>set (dropWhile js_whitespace s). js_whitespace x"
      by (simp add: trim_trimEnd trimEnd_Nil_iff)
    then have "dropWhile js_whitespace s = []"
      using hd_dropWhile [of js_whitespace s] by (cases "dropWhile js_whitespace s") auto
    then show "\<forall>x\<in>set s. js_whitespace x" by simp
  next
    assume "\<forall>x\<in>set s. js_whitespace x"
    then have "dropWhile js_whitespace s = []" by simp
    then show "trim s = []" by (simp only: trim_def rev.simps dropWhile.simps)
  qed
qed

lemma data_prefix: "utf16 ''data: '' = [100, 97, 116, 97, 58, 32]"
  by (simp add: utf16_def)

lemma trim_data_line:
  assumes "trim t \<noteq> []"
  shows "trim (utf16 ''data: '' @ t) = utf16 ''data: '' @ trimEnd t"
proof -
  from assms have "\<not> (\<forall>x\<in>set t. js_whitespace x)" by (simp add: trim_Nil_iff)
  then have "trimEnd (utf16 ''data: '' @ t) = utf16 ''data: '' @ trimEnd t"
    by (rule trimEnd_solid)
  moreover have "dropWhile js_whitespace (utf16 ''data: '' @ t) = utf16 ''data: '' @ t"
    by (simp add: data_prefix js_whitespace_def)
  ultimately show ?thesis by (simp add: trim_trimEnd)
qed

subsection \<open>The line loop\<close>

lemma process_line_data:
  assumes "trim t \<noteq> []"
  shows "process_line parse (utf16 ''data: '' @ t) =
     (if trim t = utf16 ''[DONE]'' then Done
      else case parse (trim t) of Some v \<Rightarrow> Emit v | None \<Rightarrow> Skip)"
proof -
  have len: "length (utf16 ''data: '') = 6" by (simp add: utf16_def)
  show ?thesis
    unfolding process_line_def trim_data_line [OF assms] Let_def
    by (simp add: startsWith_def len trim_trimEnd_absorb)
qed

lemma final_line_process:
  "final_line parse buffer = (case process_line parse buffer of Emit v \<Rightarrow> [v] | _ \<Rightarrow> [])"
proof (cases "buffer = []")
  case True
  then show ?thesis
    by (simp add: final_line_def process_line_def trim_def startsWith_def utf16_def)
next
  case False
  then show ?thesis
    by (simp add: final_line_def process_line_def Let_def split: option.splits)
qed

lemma startsWith_trim:
  assumes "startsWith (trim l) p" and "l = [] \<or> \<not> js_whitespace (hd l)"
  shows "startsWith l p"
proof -
  from assms(2) have "dropWhile js_whitespace l = l"
    by (simp add: dropWhile_eq_self_iff)
  then have t: "trim l = trimEnd l" by (simp add: trim_trimEnd)
  obtain s where l: "l = trimEnd l @ s" using trimEnd_prefix by blast
  from assms(1) t have "take (length p) (trimEnd l) = p" by (simp add: startsWith_def)
  then have "trimEnd l = p @ drop (length p) (trimEnd l)"
    by (metis append_take_drop_id)
  with l have "l = p @ drop (length p) (trimEnd l) @ s" by (metis append.assoc)
  then have "take (length p) l = p" by (metis append_eq_conv_conj)
  then show ?thesis by (simp add: startsWith_def)
qed

lemma process_line_no_space:
  assumes "startsWith l (utf16 ''data:'')" and "\<not> startsWith l (utf16 ''data: '')"
  shows "process_line parse l = Skip"
proof -
  from assms(1) have "l = [] \<or> \<not> js_whitespace (hd l)"
    by (cases l) (auto simp: startsWith_def utf16_def js_whitespace_def)
  with assms(2) have "\<not> startsWith (trim l) (utf16 ''data: '')"
    using startsWith_trim by blast
  then show ?thesis by (simp add: process_line_def)
qed

lemma process_line_done:
  "startsWith (trim l) (utf16 ''data: '') \<Longrightarrow> trim (drop 6 (trim l)) = utf16 ''[DONE]'' \<Longrightarrow>
   process_line parse l = Done"
  by (simp add: process_line_def)

lemma empty_line: "process_line parse [] = Skip"
  by (simp add: process_line_def trim_def startsWith_def utf16_def)

lemma drain_no_newline: "10 \<notin> set b \<Longrightarrow> drain parse b = ([], Some b)"
  by (simp add: drain.simps indexOf_None [symmetric])

text \<open>One round of the loop, on a buffer whose first line is \<open>l\<close>.\<close>

lemma drain_line:
  "10 \<notin> set l \<Longrightarrow> drain parse (l @ 10 # rest) =
     (case process_line parse l of
        Done \<Rightarrow> ([], None)
      | Emit v \<Rightarrow> yield v (drain parse rest)
      | Skip \<Rightarrow> drain parse rest)"
  by (subst drain.simps) (simp add: indexOf_first split: line_result.splits)

text \<open>
  Text that arrives later does not change what the loop did with the text before it:
  the loop goes on from the buffer it left.
\<close>

lemma drain_append:
  "drain parse (a @ b) =
     (case drain parse a of
        (es, None) \<Rightarrow> (es, None)
      | (es, Some r) \<Rightarrow> (case drain parse (r @ b) of (es', r') \<Rightarrow> (es @ es', r')))"
proof (induction parse a rule: drain.induct)
  case (1 parse buffer)
  show ?case
  proof (cases "indexOf 10 buffer")
    case None
    then have "drain parse buffer = ([], Some buffer)"
      by (simp add: drain.simps)
    then show ?thesis by (simp split: prod.splits)
  next
    case (Some i)
    define l where "l = take i buffer"
    define rest where "rest = drop (i + 1) buffer"
    from Some have buf: "buffer = l @ 10 # rest" and nl: "10 \<notin> set l"
      using indexOf_split [of 10 buffer i] by (simp_all add: l_def rest_def)
    have whole: "buffer @ b = l @ 10 # (rest @ b)" using buf by simp
    show ?thesis
    proof (cases "process_line parse l")
      case Done
      then show ?thesis
        unfolding whole by (subst buf) (simp add: drain_line nl)
    next
      case (Emit v)
      with 1(1) [OF Some] have IH: "drain parse (rest @ b) =
        (case drain parse rest of (es, None) \<Rightarrow> (es, None)
         | (es, Some r) \<Rightarrow> (case drain parse (r @ b) of (es', r') \<Rightarrow> (es @ es', r')))"
        by (simp add: l_def rest_def)
      show ?thesis
        unfolding whole
        by (subst buf)
          (simp add: drain_line nl Emit IH yield_def split: prod.splits option.splits)
    next
      case Skip
      with 1(2) [OF Some] have IH: "drain parse (rest @ b) =
        (case drain parse rest of (es, None) \<Rightarrow> (es, None)
         | (es, Some r) \<Rightarrow> (case drain parse (r @ b) of (es', r') \<Rightarrow> (es @ es', r')))"
        by (simp add: l_def rest_def)
      show ?thesis
        unfolding whole by (subst buf) (simp add: drain_line nl Skip IH)
    qed
  qed
qed

text \<open>The buffer the loop leaves holds no newline.\<close>

lemma drain_residue: "drain parse b = (es, Some r) \<Longrightarrow> 10 \<notin> set r"
proof (induction parse b arbitrary: es rule: drain.induct)
  case (1 parse buffer)
  show ?case
  proof (cases "indexOf 10 buffer")
    case None
    with 1(3) show ?thesis by (simp add: drain.simps indexOf_None)
  next
    case (Some i)
    show ?thesis
    proof (cases "process_line parse (take i buffer)")
      case Done
      with Some 1(3) show ?thesis by (simp add: drain.simps)
    next
      case (Emit v)
      with Some 1(3) have "drain parse (drop (i + 1) buffer) = (tl es, Some r)"
        by (subst (asm) drain.simps) (auto simp: yield_def prod_eq_iff)
      with 1(1) [OF Some Emit] show ?thesis by simp
    next
      case Skip
      with Some 1(3) have "drain parse (drop (i + 1) buffer) = (es, Some r)"
        by (subst (asm) drain.simps) simp
      with 1(2) [OF Some Skip] show ?thesis by simp
    qed
  qed
qed

text \<open>A buffer that ends with a newline is used up.\<close>

lemma drain_complete:
  "drain parse b = (es, Some r) \<Longrightarrow> b = [] \<or> last b = 10 \<Longrightarrow> r = []"
proof (induction parse b arbitrary: es rule: drain.induct)
  case (1 parse buffer)
  show ?case
  proof (cases "indexOf 10 buffer")
    case None
    with 1(3) have "r = buffer" and "10 \<notin> set buffer"
      by (simp_all add: drain.simps indexOf_None)
    with 1(4) show ?thesis by (cases buffer rule: rev_cases) auto
  next
    case (Some i)
    define l where "l = take i buffer"
    define rest where "rest = drop (i + 1) buffer"
    from Some have buf: "buffer = l @ 10 # rest"
      using indexOf_split [of 10 buffer i] by (simp add: l_def rest_def)
    have "last (l @ 10 # rest) = (if rest = [] then 10 else last rest)" by simp
    moreover have "buffer \<noteq> []" by (subst buf) simp
    moreover from 1(4) \<open>buffer \<noteq> []\<close> have "last (l @ 10 # rest) = 10"
      by (subst buf [symmetric]) simp
    ultimately have ends: "rest = [] \<or> last rest = 10"
      by (auto split: if_splits)
    show ?thesis
    proof (cases "process_line parse (take i buffer)")
      case Done
      with Some 1(3) show ?thesis by (simp add: drain.simps)
    next
      case (Emit v)
      with Some 1(3) have "drain parse rest = (tl es, Some r)"
        unfolding rest_def by (subst (asm) drain.simps) (auto simp: yield_def prod_eq_iff)
      with 1(1) [OF Some Emit] ends show ?thesis by (simp add: rest_def)
    next
      case Skip
      with Some 1(3) have "drain parse rest = (es, Some r)"
        unfolding rest_def by (subst (asm) drain.simps) simp
      with 1(2) [OF Some Skip] ends show ?thesis by (simp add: rest_def)
    qed
  qed
qed

lemma drain_Nil: "drain parse [] = ([], Some [])"
  by (simp add: drain_no_newline)

text \<open>A line that does nothing can be taken out of the text.\<close>

lemma drain_without_line:
  assumes "process_line parse l = Skip" and "10 \<notin> set l" and "before = [] \<or> last before = 10"
  shows "drain parse (before @ l @ 10 # rest) = drain parse (before @ rest)"
proof (cases "drain parse before")
  case (Pair es r)
  show ?thesis
  proof (cases r)
    case None
    with Pair show ?thesis
      by (simp add: drain_append [of parse before])
  next
    case (Some b)
    with Pair assms(3) have "b = []" using drain_complete by blast
    with Pair Some show ?thesis
      by (simp add: drain_append [of parse before] drain_line [OF assms(2)] assms(1))
  qed
qed

subsection \<open>Sessions\<close>

lemma written_concat:
  "incremental dec \<Longrightarrow> written dec st cs = dec_write dec st (concat cs)"
  by (induction cs arbitrary: st) (auto simp: incremental_def split: prod.splits)

text \<open>
  What a session yields and how it ends, read off the whole text the decoder has
  written: the chunk boundaries do not show.
\<close>

lemma read_chunks_yielded:
  "10 \<notin> set buffer \<Longrightarrow> yielded (read_chunks dec parse st buffer cs broken) =
     (case written dec st cs of (T, st') \<Rightarrow>
        case drain parse (buffer @ T) of
          (es, None) \<Rightarrow> es
        | (es, Some r) \<Rightarrow>
            (case broken of Some e \<Rightarrow> es | None \<Rightarrow> es @ final_line parse (r @ dec_end dec st')))"
proof (induction cs arbitrary: st buffer)
  case Nil
  then show ?case
    by (simp add: drain_no_newline split: option.splits)
next
  case (Cons c cs)
  obtain t st1 where w: "dec_write dec st c = (t, st1)" by (cases "dec_write dec st c")
  obtain T st2 where f: "written dec st1 cs = (T, st2)" by (cases "written dec st1 cs")
  have app: "buffer @ t @ T = (buffer @ t) @ T" by simp
  show ?case
  proof (cases "drain parse (buffer @ t)")
    case (Pair es r)
    show ?thesis
    proof (cases r)
      case None
      with Pair show ?thesis
        unfolding read_chunks.simps written.simps w f prod.case app
        by (subst drain_append) simp
    next
      case (Some b)
      with Pair have "10 \<notin> set b" using drain_residue by blast
      from Cons.IH [OF this] Pair Some show ?thesis
        unfolding read_chunks.simps written.simps w f prod.case app
        by (subst drain_append) (simp add: f after_def split: prod.splits option.splits)
    qed
  qed
qed

lemma read_chunks_ended:
  "10 \<notin> set buffer \<Longrightarrow> ended (read_chunks dec parse st buffer cs broken) =
     (case written dec st cs of (T, st') \<Rightarrow>
        case drain parse (buffer @ T) of
          (es, None) \<Rightarrow> Returned
        | (es, Some r) \<Rightarrow> (case broken of Some e \<Rightarrow> Threw e | None \<Rightarrow> Completed))"
proof (induction cs arbitrary: st buffer)
  case Nil
  then show ?case
    by (simp add: drain_no_newline split: option.splits)
next
  case (Cons c cs)
  obtain t st1 where w: "dec_write dec st c = (t, st1)" by (cases "dec_write dec st c")
  obtain T st2 where f: "written dec st1 cs = (T, st2)" by (cases "written dec st1 cs")
  have app: "buffer @ t @ T = (buffer @ t) @ T" by simp
  show ?case
  proof (cases "drain parse (buffer @ t)")
    case (Pair es r)
    show ?thesis
    proof (cases r)
      case None
      with Pair show ?thesis
        unfolding read_chunks.simps written.simps w f prod.case app
        by (subst drain_append) simp
    next
      case (Some b)
      with Pair have "10 \<notin> set b" using drain_residue by blast
      from Cons.IH [OF this] Pair Some show ?thesis
        unfolding read_chunks.simps written.simps w f prod.case app
        by (subst drain_append) (simp add: f after_def split: prod.splits option.splits)
    qed
  qed
qed

text \<open>The session after a first part of the chunks that did not end it.\<close>

lemma read_chunks_prefix:
  assumes "10 \<notin> set buffer"
    and "written dec st earlier = (T, st1)"
    and "drain parse (buffer @ T) = (evs0, Some buffer1)"
  shows "read_chunks dec parse st buffer (earlier @ later) broken =
     (let s = read_chunks dec parse st1 buffer1 later broken
      in \<lparr>yielded = evs0 @ yielded s, ended = ended s, pulled = length earlier + pulled s\<rparr>)"
  using assms
proof (induction earlier arbitrary: st buffer T evs0)
  case Nil
  then show ?case by (simp add: drain_no_newline Let_def)
next
  case (Cons c cs)
  obtain t st2 where w: "dec_write dec st c = (t, st2)" by (cases "dec_write dec st c")
  obtain T' st3 where f: "written dec st2 cs = (T', st3)" by (cases "written dec st2 cs")
  from Cons.prems(2) w f have T: "T = t @ T'" and st: "st3 = st1" by simp_all
  obtain e1 r1 where d1: "drain parse (buffer @ t) = (e1, r1)" by (cases "drain parse (buffer @ t)")
  have app: "buffer @ t @ T' = (buffer @ t) @ T'" by simp
  from Cons.prems(3) have whole: "drain parse ((buffer @ t) @ T') = (evs0, Some buffer1)"
    by (simp add: T)
  show ?case
  proof (cases r1)
    case None
    with whole d1 show ?thesis by (subst (asm) drain_append) simp
  next
    case (Some b)
    with d1 have nl: "10 \<notin> set b" using drain_residue by blast
    obtain e2 where d2: "drain parse (b @ T') = (e2, Some buffer1)" and e: "evs0 = e1 @ e2"
      using whole d1 Some by (subst (asm) drain_append) (auto split: prod.splits)
    from Cons.IH [OF nl f [unfolded st] d2]
    show ?thesis
      by (simp add: w d1 Some after_def Let_def e)
  qed
qed

subsection \<open>The UTF-8 decoder is incremental\<close>

lemma utf8_write_append:
  "utf8_write st (a @ b) =
     (case utf8_write st a of (t1, s1) \<Rightarrow> case utf8_write s1 b of (t2, s2) \<Rightarrow> (t1 @ t2, s2))"
  by (induction a arbitrary: st) (auto split: prod.splits)

lemma utf8_incremental: "incremental utf8_decoder"
  unfolding incremental_def utf8_decoder_def by (simp add: utf8_write_append)

lemma utf8_end_idle: "utf8_end utf8_idle = []"
  by (simp add: utf8_end_def utf8_idle_def)

lemma utf8_write_ascii:
  "\<forall>b\<in>set bs. (of_char b :: nat) \<le> 127 \<Longrightarrow> utf8_write utf8_idle bs = (utf16 bs, utf8_idle)"
  by (induction bs) (simp_all add: utf16_def utf8_step_def utf8_lead_def utf8_idle_def)

subsection \<open>The sample stream, evaluated\<close>

lemma accent_written:
  "utf8_write utf8_idle accent_whole = ((utf16 ''data: '' @ accent_payload) @ 10 # [], utf8_idle)"
  by (simp add: accent_whole_def accent_payload_def utf8_idle_def utf8_step_def utf8_lead_def
      utf16_def code_units_def)

lemma accent_line:
  "process_line accent_parse (utf16 ''data: '' @ accent_payload) = Emit (JObj [(''a'', JStr [233])])"
  by (simp add: process_line_def trim_def js_whitespace_def startsWith_def utf16_def
      accent_parse_def accent_payload_def)

lemma accent_drain:
  "drain accent_parse ((utf16 ''data: '' @ accent_payload) @ 10 # []) =
     ([JObj [(''a'', JStr [233])]], Some [])"
proof -
  have "10 \<notin> set (utf16 ''data: '' @ accent_payload)"
    by (simp add: utf16_def accent_payload_def)
  from drain_line [OF this, of accent_parse "[]"] show ?thesis
    by (simp only: accent_line line_result.case yield_def
        drain_no_newline [of "[]", simplified] fst_conv snd_conv)
qed

lemma accent_decode:
  "decode utf8_decoder accent_parse \<lparr>stream_chunks = [accent_whole], stream_error = None\<rparr> =
     \<lparr>yielded = [JObj [(''a'', JStr [233])]], ended = Completed, pulled = 1\<rparr>"
  unfolding decode_def utf8_decoder_def
  by (simp add: accent_written accent_drain after_def final_line_def utf8_end_idle
      del: append_assoc)

lemma accent_concat: "concat accent_parts = concat [accent_whole]"
  by (simp add: accent_parts_def accent_whole_def)

lemma first_half_text: "utf8_write utf8_idle first_half = (utf16 first_half, utf8_idle)"
  by (rule utf8_write_ascii) (simp add: first_half_def)

lemma second_half_text: "utf8_write utf8_idle second_half = (utf16 second_half, utf8_idle)"
  by (rule utf8_write_ascii) (simp add: second_half_def)

lemma done_chunk_text: "utf8_write utf8_idle done_chunk = (utf16 done_chunk, utf8_idle)"
  by (rule utf8_write_ascii) (simp add: done_chunk_def)

lemma late_chunk_text: "utf8_write utf8_idle late_chunk = (utf16 late_chunk, utf8_idle)"
  by (rule utf8_write_ascii) (simp add: late_chunk_def)

lemma broken_chunk_text: "utf8_write utf8_idle broken_chunk = (utf16 broken_chunk, utf8_idle)"
  by (rule utf8_write_ascii) (simp add: broken_chunk_def)

lemma number_chunk_text: "utf8_write utf8_idle number_chunk = (utf16 number_chunk, utf8_idle)"
  by (rule utf8_write_ascii) (simp add: number_chunk_def)

lemma number_chunk_split: "utf16 number_chunk = (utf16 ''data: '' @ utf16 ''42'') @ 10 # []"
  by (simp add: number_chunk_def utf16_def)

lemma halves_written:
  "written utf8_decoder (dec_new utf8_decoder) [first_half, second_half] =
     (utf16 first_half @ utf16 second_half, utf8_idle)"
  by (simp only: written.simps utf8_decoder_def decoder.select_convs first_half_text
      second_half_text prod.case append_Nil2)

lemma halves_split:
  "utf16 first_half @ utf16 second_half = (utf16 ''data: '' @ utf16 ''{\"a\":1}'') @ 10 # [] @ 10 # []"
  by (simp add: first_half_def second_half_def utf16_def)

lemma trim_a1: "trim (utf16 ''{\"a\":1}'') = utf16 ''{\"a\":1}''"
  by (simp add: trim_def js_whitespace_def utf16_def)

lemma trim_x2: "trim (utf16 ''{\"x\":2}'') = utf16 ''{\"x\":2}''"
  by (simp add: trim_def js_whitespace_def utf16_def)

lemma a1_line: "process_line pair_parse (utf16 ''data: '' @ utf16 ''{\"a\":1}'') = Emit (JObj [(''a'', JNum 1)])"
  by (subst process_line_data) (simp_all add: trim_a1 pair_parse_def, simp_all add: utf16_def)

lemma x2_line: "process_line pair_parse (utf16 ''data: '' @ utf16 ''{\"x\":2}'') = Emit (JObj [(''x'', JNum 2)])"
  by (subst process_line_data) (simp_all add: trim_x2 pair_parse_def, simp_all add: utf16_def)

lemma halves_drain:
  "drain pair_parse (utf16 first_half @ utf16 second_half) = ([JObj [(''a'', JNum 1)]], Some [])"
proof -
  have nl: "10 \<notin> set (utf16 ''data: '' @ utf16 ''{\"a\":1}'')" by (simp add: utf16_def)
  have e: "(10::nat) \<notin> set []" by simp
  show ?thesis
    unfolding halves_split
    by (simp only: drain_line [OF nl] drain_line [OF e] a1_line empty_line line_result.case
        drain_Nil yield_def fst_conv snd_conv)
qed

lemma done_line_facts:
  "10 \<notin> set (utf16 ''data: [DONE]'')"
  "startsWith (trim (utf16 ''data: [DONE]'')) (utf16 ''data: '')"
  "trim (drop 6 (trim (utf16 ''data: [DONE]''))) = utf16 ''[DONE]''"
  by (simp_all add: trim_def js_whitespace_def startsWith_def utf16_def)

lemma oops_line_facts:
  "startsWith (trim (utf16 ''data: {oops'')) (utf16 ''data: '')"
  "trim (drop 6 (trim (utf16 ''data: {oops''))) \<noteq> utf16 ''[DONE]''"
  "pair_parse (trim (drop 6 (trim (utf16 ''data: {oops'')))) = None"
  "10 \<notin> set (utf16 ''data: {oops'')"
  by (simp_all add: trim_def js_whitespace_def startsWith_def utf16_def pair_parse_def)

lemma late_drain: "drain pair_parse ([] @ utf16 late_chunk) = ([JObj [(''x'', JNum 2)]], Some [])"
proof -
  have s: "[] @ utf16 late_chunk = (utf16 ''data: '' @ utf16 ''{\"x\":2}'') @ 10 # []"
    by (simp add: late_chunk_def utf16_def)
  have nl: "10 \<notin> set (utf16 ''data: '' @ utf16 ''{\"x\":2}'')" by (simp add: utf16_def)
  show ?thesis
    unfolding s
    by (simp only: drain_line [OF nl] x2_line line_result.case drain_Nil yield_def fst_conv snd_conv)
qed

lemma scalar_facts:
  "scalar_parse [] = None"
  "scalar_parse (utf16 ''[DONE]'') = None"
  "scalar_parse (trim (utf16 ''null'')) = Some JNull"
  "scalar_parse (trim (utf16 ''42'')) = Some (JNum 42)"
  "scalar_parse (trim (utf16 '' true '')) = Some (JBool True)"
  "scalar_parse (trim (utf16 ''\"hi\"'')) = Some (JStr (utf16 ''hi''))"
  by (simp_all add: scalar_parse_def trim_def js_whitespace_def utf16_def)

lemma no_space_facts:
  "startsWith (utf16 ''data:{\"a\":1}'') (utf16 ''data:'')"
  "\<not> startsWith (utf16 ''data:{\"a\":1}'') (utf16 ''data: '')"
  "10 \<notin> set (utf16 ''data:{\"a\":1}'')"
  "10 \<notin> set (utf16 ''null'')" "10 \<notin> set (utf16 ''42'')" "10 \<notin> set (utf16 '' true '')"
  "10 \<notin> set (utf16 ''\"hi\"'')"
  by (simp_all add: startsWith_def utf16_def)

section \<open>Facts about the executor\<close>

lemma callApi_from_success:
  "post k ep body = Inr data \<Longrightarrow>
   callApi_from mr bd post k ep body rc = (Inr data, [Post ep body])"
  by (subst callApi_from.simps) simp

lemma callApi_from_auth:
  "post k ep body = Inl err \<Longrightarrow> status err = Some 401 \<or> status err = Some 403 \<Longrightarrow>
   callApi_from mr bd post k ep body rc = (Inl err, [Post ep body])"
  by (subst callApi_from.simps) auto

lemma callApi_from_retry:
  "post k ep body = Inl err \<Longrightarrow> status err = Some 429 \<or> server_error (status err) \<Longrightarrow>
   js_lt rc mr \<Longrightarrow>
   callApi_from mr bd post k ep body rc =
     followed [Post ep body, Sleep (backoff bd rc)]
       (callApi_from mr bd post (Suc k) ep body (Suc rc))"
  by (subst callApi_from.simps) (auto simp: server_error_def)

lemma callApi_from_give_up:
  "post k ep body = Inl err \<Longrightarrow> \<not> js_lt rc mr \<Longrightarrow>
   callApi_from mr bd post k ep body rc = (Inl err, [Post ep body])"
  by (subst callApi_from.simps) auto

lemma posts_append: "posts (a @ b) = posts a @ posts b"
  by (induction a rule: posts.induct) auto

lemma callApi_from_posts:
  "set (posts (snd (callApi_from mr bd post k ep body rc))) = {(ep, body)}"
proof (induction mr bd post k ep body rc rule: callApi_from.induct)
  case (1 maxRetries baseDelay post k endpoint body retryCount)
  show ?case
  proof (cases "post k endpoint body")
    case (Inr data)
    then show ?thesis by (simp add: callApi_from_success)
  next
    case (Inl err)
    show ?thesis
    proof (cases "status err = Some 401 \<or> status err = Some 403")
      case True
      with Inl show ?thesis by (simp add: callApi_from_auth)
    next
      case auth: False
      show ?thesis
      proof (cases "js_lt retryCount maxRetries")
        case False
        with Inl show ?thesis by (simp add: callApi_from_give_up)
      next
        case lt: True
        show ?thesis
        proof (cases "status err = Some 429")
          case True
          with Inl lt auth 1(1) [OF Inl] show ?thesis
            by (simp add: callApi_from_retry followed_def)
        next
          case False
          show ?thesis
          proof (cases "server_error (status err)")
            case True
            with Inl lt auth False 1(2) [OF Inl] show ?thesis
              by (simp add: callApi_from_retry followed_def)
          next
            case nse: False
            with Inl False auth show ?thesis
              by (subst callApi_from.simps) simp
          qed
        qed
      qed
    qed
  qed
qed


lemma streamApi_from_done:
  "attempt dec parse (post k ep (obj_set ''stream'' (JBool True) body)) = (evs, None) \<Longrightarrow>
   streamApi_from mr bd dec parse post k ep body rc =
     ((evs, None), [Post ep (obj_set ''stream'' (JBool True) body)])"
  by (subst streamApi_from.simps) (simp add: Let_def)

lemma streamApi_from_auth:
  "attempt dec parse (post k ep (obj_set ''stream'' (JBool True) body)) = (evs, Some err) \<Longrightarrow>
   status err = Some 401 \<or> status err = Some 403 \<Longrightarrow>
   streamApi_from mr bd dec parse post k ep body rc =
     ((evs, Some err), [Post ep (obj_set ''stream'' (JBool True) body)])"
  by (subst streamApi_from.simps) (auto simp: Let_def)

lemma streamApi_from_retry:
  "attempt dec parse (post k ep (obj_set ''stream'' (JBool True) body)) = (evs, Some err) \<Longrightarrow>
   status err = Some 429 \<or> server_error (status err) \<Longrightarrow> js_lt rc mr \<Longrightarrow>
   streamApi_from mr bd dec parse post k ep body rc =
     resume evs [Post ep (obj_set ''stream'' (JBool True) body), Sleep (backoff bd rc)]
       (streamApi_from mr bd dec parse post (Suc k) ep body (Suc rc))"
  by (subst streamApi_from.simps) (auto simp: Let_def server_error_def)

lemma streamApi_from_give_up:
  "attempt dec parse (post k ep (obj_set ''stream'' (JBool True) body)) = (evs, Some err) \<Longrightarrow>
   \<not> js_lt rc mr \<Longrightarrow>
   streamApi_from mr bd dec parse post k ep body rc =
     ((evs, Some err), [Post ep (obj_set ''stream'' (JBool True) body)])"
  by (subst streamApi_from.simps) (auto simp: Let_def)

lemma streamApi_from_posts:
  "set (posts (snd (streamApi_from mr bd dec parse post k ep body rc))) =
     {(ep, obj_set ''stream'' (JBool True) body)}"
proof (induction mr bd dec parse post k ep body rc rule: streamApi_from.induct)
  case (1 maxRetries baseDelay dec parse post k endpoint body retryCount)
  define wire where "wire = obj_set ''stream'' (JBool True) body"
  obtain evs r where att: "attempt dec parse (post k endpoint wire) = (evs, r)"
    by (cases "attempt dec parse (post k endpoint wire)")
  show ?case
  proof (cases r)
    case None
    with att show ?thesis by (simp add: streamApi_from_done wire_def)
  next
    case (Some err)
    note att' = att [unfolded Some wire_def]
    have sn: "snd (attempt dec parse (post k endpoint (obj_set ''stream'' (JBool True) body))) = Some err"
      using att' by simp
    show ?thesis
    proof (cases "status err = Some 401 \<or> status err = Some 403")
      case True
      with att' show ?thesis by (simp add: streamApi_from_auth)
    next
      case auth: False
      show ?thesis
      proof (cases "js_lt retryCount maxRetries")
        case False
        with att' show ?thesis by (simp add: streamApi_from_give_up)
      next
        case lt: True
        show ?thesis
        proof (cases "status err = Some 429")
          case True
          with att' lt auth 1(1) [OF refl refl sn] show ?thesis
            by (simp add: streamApi_from_retry resume_def)
        next
          case False
          show ?thesis
          proof (cases "server_error (status err)")
            case True
            with att' lt auth False 1(2) [OF refl refl sn] show ?thesis
              by (simp add: streamApi_from_retry resume_def)
          next
            case nse: False
            with att' False auth show ?thesis
              by (subst streamApi_from.simps) (simp add: Let_def)
          qed
        qed
      qed
    qed
  qed
qed

lemma attempt_rejected: "attempt dec parse (Inl err) = ([], Some err)"
  by (simp add: attempt_def)

lemma new_core_sample:
  "new_OpenAIApiService unset_config = Inr (sample_service unset_config)"
  "new_OpenAIApiService (retry_config m b) = Inr (sample_service (retry_config m b))"
  by (simp_all add: new_OpenAIApiService_def missing_key_def unset_config_def retry_config_def sample_service_def)

lemma new_responses_sample:
  "new_OpenAIResponsesApiService unset_config = Inr (sample_service unset_config)"
  "new_OpenAIResponsesApiService (retry_config m b) = Inr (sample_service (retry_config m b))"
  by (simp_all add: new_OpenAIResponsesApiService_def missing_key_def unset_config_def retry_config_def sample_service_def)

lemma too_many_status: "status too_many = Some 429"
  by (simp add: too_many_def)

lemma responses_callApi_defaults:
  assumes "REQUEST_MAX_RETRIES (svc_config this) = None"
    and "REQUEST_BASE_DELAY (svc_config this) = None"
    and "status err = Some 429 \<or> server_error (status err)"
    and "retryCount < 3"
    and "post k endpoint body = Inl err"
  shows "OpenAIResponsesApiService_callApi this post k endpoint body retryCount =
           followed [Post endpoint body, Sleep (Some (1000 * 2 ^ retryCount))]
             (OpenAIResponsesApiService_callApi this post (Suc k) endpoint body (Suc retryCount))"
proof -
  have lt: "js_lt retryCount (Some 3)" using assms(4) by (simp add: js_lt_def)
  show ?thesis
    using callApi_from_retry [where post = post and bd = "Some 1000", OF assms(5) assms(3) lt]
    by (simp add: OpenAIResponsesApiService_callApi_def assms(1,2) js_or_def backoff_def)
qed

lemma responses_streamApi_defaults:
  assumes "REQUEST_MAX_RETRIES (svc_config this) = None"
    and "REQUEST_BASE_DELAY (svc_config this) = None"
    and "status err = Some 429 \<or> server_error (status err)"
    and "retryCount < 3"
    and "attempt dec parse (spost k endpoint (obj_set ''stream'' (JBool True) body)) =
           (evs, Some err)"
  shows "OpenAIResponsesApiService_streamApi this dec parse spost k endpoint body retryCount =
           resume evs [Post endpoint (obj_set ''stream'' (JBool True) body),
                       Sleep (Some (1000 * 2 ^ retryCount))]
             (OpenAIResponsesApiService_streamApi this dec parse spost (Suc k) endpoint body
                (Suc retryCount))"
proof -
  have lt: "js_lt retryCount (Some 3)" using assms(4) by (simp add: js_lt_def)
  show ?thesis
    using streamApi_from_retry [where post = spost and bd = "Some 1000", OF assms(5) assms(3) lt]
    by (simp add: OpenAIResponsesApiService_streamApi_def assms(1,2) js_or_def backoff_def)
qed

text \<open>Where the two classes agree: both retry parameters set, neither to zero.\<close>

lemma variants_agree_when_nonzero:
  assumes "REQUEST_MAX_RETRIES cfg = Some m" and "m \<noteq> 0"
    and "REQUEST_BASE_DELAY cfg = Some b" and "b \<noteq> 0"
    and "new_OpenAIApiService cfg = Inr core"
    and "new_OpenAIResponsesApiService cfg = Inr resp"
  shows "OpenAIApiService_callApi core post k endpoint body retryCount =
           OpenAIResponsesApiService_callApi resp post k endpoint body retryCount \<and>
         OpenAIApiService_streamApi core dec parse spost k endpoint body retryCount =
           OpenAIResponsesApiService_streamApi resp dec parse spost k endpoint body retryCount"
proof -
  from assms(5) have c: "svc_config core = cfg"
    by (auto simp: new_OpenAIApiService_def split: if_splits)
  from assms(6) have r: "svc_config resp = cfg"
    by (auto simp: new_OpenAIResponsesApiService_def split: if_splits)
  show ?thesis
    using assms(1-4)
    by (simp add: OpenAIApiService_callApi_def OpenAIResponsesApiService_callApi_def
        OpenAIApiService_streamApi_def OpenAIResponsesApiService_streamApi_def c r js_or_def)
qed

section \<open>The properties of the specification\<close>

text \<open>
  C1. With the retry parameters unset, the specification asks for three retries from a
  base delay of 1000 ms in both classes. \<^verbatim>\<open>OpenAIResponsesApiService\<close> does so
  (\<open>responses_callApi_defaults\<close>, \<open>responses_streamApi_defaults\<close>);
  \<^verbatim>\<open>OpenAIApiService\<close> reads the unset values as they are, the comparison
  \<^verbatim>\<open>retryCount < undefined\<close> is false, and a 429 is thrown to the caller after
  one request, in \<^verbatim>\<open>callApi\<close> and in \<^verbatim>\<open>streamApi\<close>. The theorem evaluates both
  classes on a transport that answers 429 once and then succeeds.
\<close>

theorem unset_retry_parameters_not_defaulted:
  "new_OpenAIApiService unset_config = Inr (sample_service unset_config) \<and>
   OpenAIApiService_callApi (sample_service unset_config) (limited 1 JNull) 0
     ''/chat/completions'' sample_body 0 =
     (Inl too_many, [Post ''/chat/completions'' sample_body]) \<and>
   OpenAIApiService_streamApi (sample_service unset_config) utf8_decoder accent_parse
     (limited 1 one_event) 0 ''/chat/completions'' sample_body 0 =
     (([], Some too_many),
      [Post ''/chat/completions'' (obj_set ''stream'' (JBool True) sample_body)]) \<and>
   OpenAIResponsesApiService_callApi (sample_service unset_config) (limited 1 JNull) 0
     ''/chat/completions'' sample_body 0 =
     (Inr JNull, [Post ''/chat/completions'' sample_body, Sleep (Some 1000),
                  Post ''/chat/completions'' sample_body])"
proof -
  have cfg: "REQUEST_MAX_RETRIES (svc_config (sample_service unset_config)) = None"
    "REQUEST_BASE_DELAY (svc_config (sample_service unset_config)) = None"
    by (simp_all add: sample_service_def unset_config_def)
  have core: "callApi_from None None (limited 1 JNull) 0 ''/chat/completions'' sample_body 0 =
      (Inl too_many, [Post ''/chat/completions'' sample_body])"
    by (rule callApi_from_give_up [where post = "limited 1 JNull"])
      (simp_all add: limited_def js_lt_def)
  have stream: "streamApi_from None None utf8_decoder accent_parse (limited 1 one_event) 0
      ''/chat/completions'' sample_body 0 =
      (([], Some too_many),
       [Post ''/chat/completions'' (obj_set ''stream'' (JBool True) sample_body)])"
    by (rule streamApi_from_give_up [where post = "limited 1 one_event"])
      (simp_all add: limited_def js_lt_def attempt_rejected)
  have last: "callApi_from (Some 3) (Some 1000) (limited (Suc 0) JNull) (Suc 0)
      ''/chat/completions'' sample_body (Suc 0) = (Inr JNull, [Post ''/chat/completions'' sample_body])"
    by (rule callApi_from_success [where post = "limited (Suc 0) JNull"]) (simp add: limited_def)
  have resp: "callApi_from (Some 3) (Some 1000) (limited 1 JNull) 0 ''/chat/completions''
      sample_body 0 =
      (Inr JNull, [Post ''/chat/completions'' sample_body, Sleep (Some 1000),
                   Post ''/chat/completions'' sample_body])"
    using callApi_from_retry [where post = "limited 1 JNull" and k = 0 and err = too_many
        and rc = 0 and mr = "Some 3" and bd = "Some 1000" and ep = "''/chat/completions''"
        and body = sample_body]
    by (simp add: limited_def too_many_status js_lt_def last followed_def backoff_def)
  show ?thesis
    using core stream resp
    by (simp add: new_core_sample OpenAIApiService_callApi_def OpenAIApiService_streamApi_def
        OpenAIResponsesApiService_callApi_def cfg js_or_def)
qed

text \<open>
  C2. For every byte sequence and every two ways of cutting it into chunks, also
  inside a multi-byte character or inside a \<^verbatim>\<open>data: \<close> line, the decoding loop of
  \<^verbatim>\<open>streamApi\<close> yields the same values and ends the same way. The loop is
  parametric in the decoder; what is used of it is that it is incremental.
\<close>

theorem chunking_independent:
  assumes "incremental dec" and "concat cs1 = concat cs2"
  shows "yielded (decode dec parse \<lparr>stream_chunks = cs1, stream_error = e\<rparr>) =
         yielded (decode dec parse \<lparr>stream_chunks = cs2, stream_error = e\<rparr>) \<and>
         ended (decode dec parse \<lparr>stream_chunks = cs1, stream_error = e\<rparr>) =
         ended (decode dec parse \<lparr>stream_chunks = cs2, stream_error = e\<rparr>)"
  using assms by (simp add: decode_def read_chunks_yielded read_chunks_ended written_concat)

theorem chunking_independent_witness:
  "incremental utf8_decoder \<and> concat accent_parts = concat [accent_whole] \<and>
   yielded (decode utf8_decoder accent_parse
     \<lparr>stream_chunks = accent_parts, stream_error = None\<rparr>) = [JObj [(''a'', JStr [233])]] \<and>
   ended (decode utf8_decoder accent_parse
     \<lparr>stream_chunks = accent_parts, stream_error = None\<rparr>) = Completed"
  using chunking_independent [OF utf8_incremental accent_concat, of accent_parse None]
  by (simp add: utf8_incremental accent_concat accent_decode)

text \<open>
  C3. With three retries and a base delay \<open>b\<close> configured, a transport that answers
  429 twice and then succeeds makes \<^verbatim>\<open>callApi\<close> post three times, wait \<open>b\<close> and then
  \<open>2 * b\<close>, and return the response data; the delay before retry \<open>n\<close> is
  \<open>b * 2 ^ n\<close>.
\<close>

theorem two_429_then_success:
  assumes "REQUEST_MAX_RETRIES (svc_config this) = Some 3"
    and "REQUEST_BASE_DELAY (svc_config this) = Some b"
    and "post k endpoint body = Inl e0" and "status e0 = Some 429"
    and "post (Suc k) endpoint body = Inl e1" and "status e1 = Some 429"
    and "post (Suc (Suc k)) endpoint body = Inr data"
  shows "OpenAIApiService_callApi this post k endpoint body 0 =
           (Inr data, [Post endpoint body, Sleep (Some b), Post endpoint body,
                       Sleep (Some (2 * b)), Post endpoint body]) \<and>
         backoff (REQUEST_BASE_DELAY (svc_config this)) n = Some (b * 2 ^ n)"
proof -
  have lt0: "js_lt 0 (Some 3)" and lt1: "js_lt (Suc 0) (Some 3)"
    by (simp_all add: js_lt_def)
  have third: "callApi_from (Some 3) (Some b) post (Suc (Suc k)) endpoint body (Suc (Suc 0)) =
      (Inr data, [Post endpoint body])"
    using assms(7) by (rule callApi_from_success [where post = post])
  have second: "callApi_from (Some 3) (Some b) post (Suc k) endpoint body (Suc 0) =
      (Inr data, [Post endpoint body, Sleep (Some (2 * b)), Post endpoint body])"
    using callApi_from_retry [where post = post and bd = "Some b", OF assms(5) disjI1 [OF assms(6)] lt1]
    by (simp add: third followed_def backoff_def)
  have first: "callApi_from (Some 3) (Some b) post k endpoint body 0 =
      (Inr data, [Post endpoint body, Sleep (Some b), Post endpoint body,
                  Sleep (Some (2 * b)), Post endpoint body])"
    using callApi_from_retry [where post = post and bd = "Some b", OF assms(3) disjI1 [OF assms(4)] lt0]
    by (simp add: second followed_def backoff_def)
  show ?thesis
    by (simp add: OpenAIApiService_callApi_def assms(1,2) first backoff_def)
qed

theorem two_429_then_success_witness:
  "OpenAIApiService_callApi (sample_service (retry_config 3 250)) (limited 2 (JStr (utf16 ''ok''))) 0
     ''/chat/completions'' sample_body 0 =
     (Inr (JStr (utf16 ''ok'')),
      [Post ''/chat/completions'' sample_body, Sleep (Some 250),
       Post ''/chat/completions'' sample_body, Sleep (Some 500),
       Post ''/chat/completions'' sample_body]) \<and>
   backoff (REQUEST_BASE_DELAY (svc_config (sample_service (retry_config 3 250)))) 2 = Some 1000"
  using two_429_then_success [of "sample_service (retry_config 3 250)" 250
      "limited 2 (JStr (utf16 ''ok''))" 0 "''/chat/completions''" sample_body too_many too_many
      "JStr (utf16 ''ok'')" 2]
  by (simp add: sample_service_def retry_config_def unset_config_def limited_def too_many_def)

text \<open>
  C4. A 401 or a 403 is thrown to the caller after the one request, with no delay,
  whatever the configuration and the retry count: in \<^verbatim>\<open>callApi\<close> and in
  \<^verbatim>\<open>streamApi\<close> (where the error may also come from the stream while it is read), in
  both classes.
\<close>

theorem auth_failure_not_retried:
  assumes "status err = Some 401 \<or> status err = Some 403"
    and "post k endpoint body = Inl err"
    and "attempt dec parse (spost k endpoint (obj_set ''stream'' (JBool True) body)) = (evs, Some err)"
  shows "OpenAIApiService_callApi this post k endpoint body retryCount =
           (Inl err, [Post endpoint body]) \<and>
         OpenAIResponsesApiService_callApi this post k endpoint body retryCount =
           (Inl err, [Post endpoint body]) \<and>
         OpenAIApiService_streamApi this dec parse spost k endpoint body retryCount =
           ((evs, Some err), [Post endpoint (obj_set ''stream'' (JBool True) body)]) \<and>
         OpenAIResponsesApiService_streamApi this dec parse spost k endpoint body retryCount =
           ((evs, Some err), [Post endpoint (obj_set ''stream'' (JBool True) body)])"
  using callApi_from_auth [where post = post, OF assms(2,1)]
    streamApi_from_auth [where post = spost, OF assms(3,1)]
  by (simp add: OpenAIApiService_callApi_def OpenAIResponsesApiService_callApi_def
      OpenAIApiService_streamApi_def OpenAIResponsesApiService_streamApi_def)

theorem auth_failure_not_retried_witness:
  "OpenAIApiService_callApi (sample_service (retry_config 3 1000)) denied 0
     ''/chat/completions'' sample_body 0 =
     (Inl unauthorized, [Post ''/chat/completions'' sample_body]) \<and>
   OpenAIResponsesApiService_callApi (sample_service (retry_config 3 1000)) denied 0
     ''/chat/completions'' sample_body 0 =
     (Inl unauthorized, [Post ''/chat/completions'' sample_body]) \<and>
   OpenAIApiService_streamApi (sample_service (retry_config 3 1000)) utf8_decoder accent_parse
     denied 0 ''/chat/completions'' sample_body 0 =
     (([], Some unauthorized),
      [Post ''/chat/completions'' [(''model'', JStr (utf16 ''gpt-4o'')), (''stream'', JBool True)]]) \<and>
   OpenAIResponsesApiService_streamApi (sample_service (retry_config 3 1000)) utf8_decoder
     accent_parse denied 0 ''/chat/completions'' sample_body 0 =
     (([], Some unauthorized),
      [Post ''/chat/completions'' [(''model'', JStr (utf16 ''gpt-4o'')), (''stream'', JBool True)]])"
proof -
  have a: "status unauthorized = Some 401 \<or> status unauthorized = Some 403"
    by (simp add: unauthorized_def)
  have b: "denied 0 ''/chat/completions'' sample_body = (Inl unauthorized :: http_error + json)"
    by (simp add: denied_def)
  have c: "attempt utf8_decoder accent_parse
      (denied 0 ''/chat/completions'' (obj_set ''stream'' (JBool True) sample_body)) =
      ([], Some unauthorized)"
    by (simp add: denied_def attempt_rejected)
  have d: "obj_set ''stream'' (JBool True) sample_body =
      [(''model'', JStr (utf16 ''gpt-4o'')), (''stream'', JBool True)]"
    by (simp add: sample_body_def)
  from auth_failure_not_retried [where post = "denied :: json transport"
      and spost = "denied :: byte_stream transport"
      and this = "sample_service (retry_config 3 1000)" and retryCount = 0, OF a b c]
  show ?thesis by (simp only: d)
qed

text \<open>
  C5. A session has read the chunks \<open>earlier\<close> without meeting \<^verbatim>\<open>[DONE]\<close> and
  reads \<open>chunk\<close>; the buffer then holds complete lines \<open>before\<close>, a line \<open>l\<close> whose
  trimmed \<^verbatim>\<open>data: \<close> payload is \<^verbatim>\<open>[DONE]\<close>, and \<open>rest\<close>. The session ends there:
  it has yielded what the lines before \<open>l\<close> yield, nothing for \<open>l\<close> or for \<open>rest\<close>,
  it has taken no chunk of \<open>queued\<close> from the stream, and an error the stream holds
  after them is never thrown.
\<close>

theorem done_ends_session:
  assumes "written dec (dec_new dec) earlier = (T, st)"
    and "drain parse T = (evs0, Some buffer)"
    and "dec_write dec st chunk = (text, st')"
    and "buffer @ text = before @ l @ 10 # rest"
    and "drain parse before = (evs, Some [])"
    and "10 \<notin> set l"
    and "startsWith (trim l) (utf16 ''data: '')"
    and "trim (drop 6 (trim l)) = utf16 ''[DONE]''"
  shows "decode dec parse \<lparr>stream_chunks = earlier @ chunk # queued, stream_error = broken\<rparr> =
           \<lparr>yielded = evs0 @ evs, ended = Returned, pulled = Suc (length earlier)\<rparr> \<and>
         attempt dec parse (Inr \<lparr>stream_chunks = earlier @ chunk # queued, stream_error = broken\<rparr>) =
           (evs0 @ evs, None)"
proof -
  have line: "process_line parse l = Done"
    using assms(7,8) by (rule process_line_done)
  have "drain parse (before @ l @ 10 # rest) = (evs, None)"
    by (subst drain_append) (simp add: assms(5) drain_line [OF assms(6)] line)
  then have round: "drain parse (buffer @ text) = (evs, None)"
    by (simp add: assms(4))
  have start: "10 \<notin> set ([] :: jsstring)" "drain parse ([] @ T) = (evs0, Some buffer)"
    using assms(2) by simp_all
  have "read_chunks dec parse (dec_new dec) [] (earlier @ chunk # queued) broken =
      (let s = read_chunks dec parse st buffer (chunk # queued) broken
       in \<lparr>yielded = evs0 @ yielded s, ended = ended s, pulled = length earlier + pulled s\<rparr>)"
    by (rule read_chunks_prefix [OF start(1) assms(1) start(2)])
  then have "decode dec parse \<lparr>stream_chunks = earlier @ chunk # queued, stream_error = broken\<rparr> =
      \<lparr>yielded = evs0 @ evs, ended = Returned, pulled = Suc (length earlier)\<rparr>"
    by (simp add: decode_def assms(3) round)
  then show ?thesis by (simp add: attempt_def)
qed

theorem done_ends_session_witness:
  "decode utf8_decoder pair_parse
     \<lparr>stream_chunks = [first_half, second_half] @ done_chunk # [late_chunk],
      stream_error = Some too_many\<rparr> =
     \<lparr>yielded = [JObj [(''a'', JNum 1)]] @ [], ended = Returned, pulled = Suc (length [first_half, second_half])\<rparr> \<and>
   attempt utf8_decoder pair_parse
     (Inr \<lparr>stream_chunks = [first_half, second_half] @ done_chunk # [late_chunk],
           stream_error = Some too_many\<rparr>) = ([JObj [(''a'', JNum 1)]] @ [], None)"
proof -
  have h3: "dec_write utf8_decoder utf8_idle done_chunk = (utf16 done_chunk, utf8_idle)"
    by (simp only: utf8_decoder_def decoder.select_convs done_chunk_text)
  have h4: "[] @ utf16 done_chunk = [] @ utf16 ''data: [DONE]'' @ 10 # []"
    by (simp add: done_chunk_def utf16_def)
  show ?thesis
    by (rule done_ends_session [OF halves_written halves_drain h3 h4 drain_Nil done_line_facts])
qed

text \<open>
  C6. A \<^verbatim>\<open>data: \<close> line whose payload \<^verbatim>\<open>JSON.parse\<close> rejects yields nothing and
  ends nothing: the loop goes on with the text after it as if the line were not
  there, the lines after it yield what they yield without it, and a stream whose text
  holds the line yields and ends as a stream whose text lacks it.
\<close>

theorem malformed_line_skipped:
  assumes "startsWith (trim l) (utf16 ''data: '')"
    and "trim (drop 6 (trim l)) \<noteq> utf16 ''[DONE]''"
    and "parse (trim (drop 6 (trim l))) = None"
    and "10 \<notin> set l"
    and "before = [] \<or> last before = 10"
  shows "process_line parse l = Skip \<and>
         drain parse (before @ l @ 10 # rest) = drain parse (before @ rest) \<and>
         final_line parse l = [] \<and>
         (written dec (dec_new dec) cs = (before @ l @ 10 # rest, st) \<longrightarrow>
          written dec (dec_new dec) cs' = (before @ rest, st) \<longrightarrow>
          yielded (decode dec parse \<lparr>stream_chunks = cs, stream_error = e\<rparr>) =
            yielded (decode dec parse \<lparr>stream_chunks = cs', stream_error = e\<rparr>) \<and>
          ended (decode dec parse \<lparr>stream_chunks = cs, stream_error = e\<rparr>) =
            ended (decode dec parse \<lparr>stream_chunks = cs', stream_error = e\<rparr>))"
proof -
  have skip: "process_line parse l = Skip"
    using assms(1-3) by (simp add: process_line_def)
  have same: "drain parse (before @ l @ 10 # rest) = drain parse (before @ rest)"
    using skip assms(4,5) by (rule drain_without_line)
  have last: "final_line parse l = []"
    by (simp add: final_line_process skip)
  have streams: "yielded (decode dec parse \<lparr>stream_chunks = cs, stream_error = e\<rparr>) =
        yielded (decode dec parse \<lparr>stream_chunks = cs', stream_error = e\<rparr>) \<and>
      ended (decode dec parse \<lparr>stream_chunks = cs, stream_error = e\<rparr>) =
        ended (decode dec parse \<lparr>stream_chunks = cs', stream_error = e\<rparr>)"
    if "written dec (dec_new dec) cs = (before @ l @ 10 # rest, st)"
      and "written dec (dec_new dec) cs' = (before @ rest, st)"
    using that by (simp add: decode_def read_chunks_yielded read_chunks_ended same)
  from skip same last streams show ?thesis by blast
qed

theorem malformed_line_skipped_witness:
  "process_line pair_parse (utf16 ''data: {oops'') = Skip \<and>
   drain pair_parse ([] @ utf16 ''data: {oops'' @ 10 # utf16 late_chunk) =
     ([JObj [(''x'', JNum 2)]], Some []) \<and>
   final_line pair_parse (utf16 ''data: {oops'') = [] \<and>
   yielded (decode utf8_decoder pair_parse
     \<lparr>stream_chunks = [broken_chunk, late_chunk], stream_error = None\<rparr>) =
   yielded (decode utf8_decoder pair_parse
     \<lparr>stream_chunks = [late_chunk], stream_error = None\<rparr>)"
proof -
  have b: "([] :: jsstring) = [] \<or> last ([] :: jsstring) = 10" by simp
  have w1: "written utf8_decoder (dec_new utf8_decoder) [broken_chunk, late_chunk] =
      (utf16 broken_chunk @ utf16 late_chunk, utf8_idle)"
    by (simp only: written.simps utf8_decoder_def decoder.select_convs broken_chunk_text
        late_chunk_text prod.case append_Nil2)
  have s1: "utf16 broken_chunk @ utf16 late_chunk = [] @ utf16 ''data: {oops'' @ 10 # utf16 late_chunk"
    by (simp add: broken_chunk_def utf16_def)
  have w2: "written utf8_decoder (dec_new utf8_decoder) [late_chunk] = ([] @ utf16 late_chunk, utf8_idle)"
    by (simp only: written.simps utf8_decoder_def decoder.select_convs late_chunk_text
        prod.case append_Nil2 append_Nil)
  note inst = malformed_line_skipped [where parse = pair_parse and rest = "utf16 late_chunk"
      and dec = utf8_decoder and cs = "[broken_chunk, late_chunk]" and st = utf8_idle
      and cs' = "[late_chunk]" and e = None, OF oops_line_facts b]
  from inst have "process_line pair_parse (utf16 ''data: {oops'') = Skip"
    by (rule conjunct1)
  moreover from inst have "drain pair_parse ([] @ utf16 ''data: {oops'' @ 10 # utf16 late_chunk) =
     ([JObj [(''x'', JNum 2)]], Some [])"
    by (simp only: late_drain)
  moreover from inst have "final_line pair_parse (utf16 ''data: {oops'') = []"
    by (simp only:)
  moreover have "yielded (decode utf8_decoder pair_parse
     \<lparr>stream_chunks = [broken_chunk, late_chunk], stream_error = None\<rparr>) =
   yielded (decode utf8_decoder pair_parse
     \<lparr>stream_chunks = [late_chunk], stream_error = None\<rparr>)"
    using inst [THEN conjunct2, THEN conjunct2, THEN conjunct2, THEN mp, THEN mp,
        OF w1 [unfolded s1] w2]
    by (rule conjunct1)
  ultimately show ?thesis by (intro conjI)
qed

text \<open>
  C7. When the chunks are used up and no \<^verbatim>\<open>[DONE]\<close> was met, the session appends
  \<^verbatim>\<open>decoder.end()\<close> to the buffer and applies the line logic once to what is there,
  newline or not, so a last \<^verbatim>\<open>data: \<close> line is still yielded; the single chunk
  \<^verbatim>\<open>data: {"x":2}\<close> yields what \<^verbatim>\<open>JSON.parse\<close> makes of \<^verbatim>\<open>{"x":2}\<close>.
\<close>

theorem flush_at_end_of_stream:
  assumes "written dec (dec_new dec) cs = (T, st)"
    and "drain parse T = (evs, Some buffer)"
  shows "decode dec parse \<lparr>stream_chunks = cs, stream_error = None\<rparr> =
           \<lparr>yielded = evs @ (case process_line parse (buffer @ dec_end dec st) of
                               Emit v \<Rightarrow> [v] | _ \<Rightarrow> []),
            ended = Completed, pulled = length cs\<rparr> \<and>
         (parse (utf16 ''{\"x\":2}'') = Some x2 \<longrightarrow>
          yielded (decode utf8_decoder parse
            \<lparr>stream_chunks = [''data: {\"x\":2}''], stream_error = None\<rparr>) = [x2])"
proof -
  have start: "10 \<notin> set ([] :: jsstring)" "drain parse ([] @ T) = (evs, Some buffer)"
    using assms(2) by simp_all
  have "read_chunks dec parse (dec_new dec) [] (cs @ []) None =
      (let s = read_chunks dec parse st buffer [] None
       in \<lparr>yielded = evs @ yielded s, ended = ended s, pulled = length cs + pulled s\<rparr>)"
    by (rule read_chunks_prefix [OF start(1) assms(1) start(2)])
  then have general: "decode dec parse \<lparr>stream_chunks = cs, stream_error = None\<rparr> =
      \<lparr>yielded = evs @ (case process_line parse (buffer @ dec_end dec st) of
                          Emit v \<Rightarrow> [v] | _ \<Rightarrow> []),
       ended = Completed, pulled = length cs\<rparr>"
    by (simp add: decode_def final_line_process)
  have w: "utf8_write utf8_idle ''data: {\"x\":2}'' = (utf16 ''data: '' @ utf16 ''{\"x\":2}'', utf8_idle)"
    by (simp add: utf8_idle_def utf8_step_def utf8_lead_def utf16_def)
  have t: "trim (utf16 ''{\"x\":2}'') = utf16 ''{\"x\":2}''"
    by (simp add: trim_def js_whitespace_def utf16_def)
  have nd: "utf16 ''{\"x\":2}'' \<noteq> utf16 ''[DONE]''" "utf16 ''{\"x\":2}'' \<noteq> []"
    by (simp_all add: utf16_def)
  have p: "parse (utf16 ''{\"x\":2}'') = Some x2 \<Longrightarrow>
      final_line parse (utf16 ''data: '' @ utf16 ''{\"x\":2}'') = [x2]"
    unfolding final_line_process by (subst process_line_data) (simp_all add: t nd)
  have example: "parse (utf16 ''{\"x\":2}'') = Some x2 \<Longrightarrow>
      yielded (decode utf8_decoder parse
        \<lparr>stream_chunks = [''data: {\"x\":2}''], stream_error = None\<rparr>) = [x2]"
  proof -
    assume a: "parse (utf16 ''{\"x\":2}'') = Some x2"
    have nl: "10 \<notin> set (utf16 ''data: '' @ utf16 ''{\"x\":2}'')" by (simp add: utf16_def)
    have "read_chunks utf8_decoder parse utf8_idle [] [''data: {\"x\":2}''] None =
        \<lparr>yielded = [x2], ended = Completed, pulled = 1\<rparr>"
      by (simp only: read_chunks.simps utf8_decoder_def decoder.select_convs w prod.case
          append_Nil drain_no_newline [OF nl] option.case after_def utf8_end_idle append_Nil2
          p [OF a] session.select_convs session.update_convs One_nat_def)
    then show ?thesis
      by (simp only: decode_def utf8_decoder_def decoder.select_convs byte_stream.select_convs
          session.select_convs)
  qed
  show ?thesis
    by (rule conjI [OF general]) (rule impI, rule example)
qed

theorem flush_at_end_of_stream_witness:
  "pair_parse (utf16 ''{\"x\":2}'') = Some (JObj [(''x'', JNum 2)]) \<and>
   yielded (decode utf8_decoder pair_parse
     \<lparr>stream_chunks = [''data: {\"x\":2}''], stream_error = None\<rparr>) = [JObj [(''x'', JNum 2)]] \<and>
   ended (decode utf8_decoder pair_parse
     \<lparr>stream_chunks = [''data: {\"x\":2}''], stream_error = None\<rparr>) = Completed \<and>
   pulled (decode utf8_decoder pair_parse
     \<lparr>stream_chunks = [''data: {\"x\":2}''], stream_error = None\<rparr>) = 1"
proof -
  have p: "pair_parse (utf16 ''{\"x\":2}'') = Some (JObj [(''x'', JNum 2)])"
    by (simp add: pair_parse_def utf16_def)
  have w: "utf8_write utf8_idle ''data: {\"x\":2}'' = (utf16 ''data: {\"x\":2}'', utf8_idle)"
    by (rule utf8_write_ascii) simp
  have h1: "written utf8_decoder (dec_new utf8_decoder) [''data: {\"x\":2}''] =
      (utf16 ''data: {\"x\":2}'', utf8_idle)"
    by (simp only: written.simps utf8_decoder_def decoder.select_convs w prod.case append_Nil2)
  have nl: "10 \<notin> set (utf16 ''data: {\"x\":2}'')" by (simp add: utf16_def)
  note inst = flush_at_end_of_stream [OF h1 drain_no_newline [OF nl], of pair_parse
      "JObj [(''x'', JNum 2)]"]
  have a: "yielded (decode utf8_decoder pair_parse
     \<lparr>stream_chunks = [''data: {\"x\":2}''], stream_error = None\<rparr>) = [JObj [(''x'', JNum 2)]]"
    by (rule inst [THEN conjunct2, THEN mp, OF p])
  from inst have full: "decode utf8_decoder pair_parse
      \<lparr>stream_chunks = [''data: {\"x\":2}''], stream_error = None\<rparr> =
      \<lparr>yielded = [] @ (case process_line pair_parse
          (utf16 ''data: {\"x\":2}'' @ dec_end utf8_decoder utf8_idle) of
            Emit v \<Rightarrow> [v] | _ \<Rightarrow> []),
       ended = Completed, pulled = length [''data: {\"x\":2}'']\<rparr>"
    by (rule conjunct1)
  have b: "ended (decode utf8_decoder pair_parse
     \<lparr>stream_chunks = [''data: {\"x\":2}''], stream_error = None\<rparr>) = Completed"
    and c: "pulled (decode utf8_decoder pair_parse
     \<lparr>stream_chunks = [''data: {\"x\":2}''], stream_error = None\<rparr>) = 1"
    unfolding full by simp_all
  from p a b c show ?thesis by (intro conjI)
qed

text \<open>
  C8. Every request of one call of \<^verbatim>\<open>callApi\<close> carries the caller's endpoint and
  body; every request of one call of \<^verbatim>\<open>streamApi\<close> carries the caller's body with
  the field \<^verbatim>\<open>stream\<close> set to \<^verbatim>\<open>true\<close> and its other fields as they were.
\<close>

theorem payload_unchanged:
  "set (posts (snd (OpenAIApiService_callApi this post k endpoint body retryCount))) =
     {(endpoint, body)} \<and>
   set (posts (snd (OpenAIResponsesApiService_callApi this post k endpoint body retryCount))) =
     {(endpoint, body)} \<and>
   set (posts (snd (OpenAIApiService_streamApi this dec parse spost k endpoint body retryCount))) =
     {(endpoint, obj_set ''stream'' (JBool True) body)} \<and>
   set (posts (snd (OpenAIResponsesApiService_streamApi this dec parse spost k endpoint body
     retryCount))) = {(endpoint, obj_set ''stream'' (JBool True) body)} \<and>
   obj_get (obj_set ''stream'' (JBool True) body) key =
     (if key = ''stream'' then Some (JBool True) else obj_get body key)"
proof -
  have "obj_get (obj_set f v body) key = (if key = f then Some v else obj_get body key)" for f v
    by (induction body) auto
  then show ?thesis
    by (simp add: OpenAIApiService_callApi_def OpenAIResponsesApiService_callApi_def
      OpenAIApiService_streamApi_def OpenAIResponsesApiService_streamApi_def
      callApi_from_posts streamApi_from_posts)
qed

theorem payload_unchanged_witness:
  "set (posts (snd (OpenAIApiService_callApi (sample_service (retry_config 3 250))
     (limited 2 JNull) 0 ''/chat/completions'' sample_body 0))) =
     {(''/chat/completions'', sample_body)} \<and>
   set (posts (snd (OpenAIApiService_streamApi (sample_service (retry_config 3 250)) utf8_decoder
     accent_parse (limited 2 one_event) 0 ''/chat/completions'' sample_body 0))) =
     {(''/chat/completions'', [(''model'', JStr (utf16 ''gpt-4o'')), (''stream'', JBool True)])}"
  using payload_unchanged [of "sample_service (retry_config 3 250)" "limited 2 JNull" 0
      "''/chat/completions''" sample_body 0 utf8_decoder accent_parse "limited 2 one_event"]
  by (simp add: sample_body_def)

text \<open>
  C9. A line \<^verbatim>\<open>data: \<close> followed by \<open>t\<close> yields the value \<^verbatim>\<open>JSON.parse\<close> gives for
  the trimmed \<open>t\<close>, whatever kind of value it is (\<^verbatim>\<open>JSON.parse\<close> accepts neither
  the empty text nor \<^verbatim>\<open>[DONE]\<close>): the value is the first the loop yields from a
  buffer that starts with the line, before what the text after the line yields, and
  the value the code after the loop yields for the line. A line that starts with
  \<^verbatim>\<open>data:\<close> and not with \<^verbatim>\<open>data: \<close> yields nothing, whatever the parser would have
  made of it.
\<close>

theorem any_json_value_emitted:
  assumes "parse [] = None" and "parse (utf16 ''[DONE]'') = None"
    and "parse (trim t) = Some v" and "10 \<notin> set t"
    and "startsWith l (utf16 ''data:'')" and "\<not> startsWith l (utf16 ''data: '')"
    and "10 \<notin> set l"
  shows "process_line parse (utf16 ''data: '' @ t) = Emit v \<and>
         drain parse ((utf16 ''data: '' @ t) @ 10 # rest) =
           (v # fst (drain parse rest), snd (drain parse rest)) \<and>
         final_line parse (utf16 ''data: '' @ t) = [v] \<and>
         process_line lenient l = Skip \<and>
         drain lenient (l @ 10 # rest) = drain lenient rest \<and>
         final_line lenient l = []"
proof -
  from assms(1,3) have ne: "trim t \<noteq> []" by auto
  from assms(2,3) have nd: "trim t \<noteq> utf16 ''[DONE]''" by auto
  have emit: "process_line parse (utf16 ''data: '' @ t) = Emit v"
    by (simp add: process_line_data [OF ne] nd assms(3))
  have nl: "10 \<notin> set (utf16 ''data: '' @ t)"
    using assms(4) by (simp add: utf16_def)
  have skip: "process_line lenient l = Skip"
    using assms(5,6) by (rule process_line_no_space)
  have d1: "drain parse ((utf16 ''data: '' @ t) @ 10 # rest) =
      (v # fst (drain parse rest), snd (drain parse rest))"
    using drain_line [OF nl, of parse rest] by (simp only: emit line_result.case yield_def)
  have d2: "drain lenient (l @ 10 # rest) = drain lenient rest"
    using drain_line [OF assms(7), of lenient rest] by (simp only: skip line_result.case)
  have f1: "final_line parse (utf16 ''data: '' @ t) = [v]"
    by (simp add: final_line_process emit)
  have f2: "final_line lenient l = []"
    by (simp add: final_line_process skip)
  from emit d1 f1 skip d2 f2 show ?thesis by (intro conjI)
qed

theorem any_json_value_emitted_witness:
  "process_line scalar_parse (utf16 ''data: '' @ utf16 ''null'') = Emit JNull \<and>
   process_line scalar_parse (utf16 ''data: '' @ utf16 ''42'') = Emit (JNum 42) \<and>
   process_line scalar_parse (utf16 ''data: '' @ utf16 '' true '') = Emit (JBool True) \<and>
   process_line scalar_parse (utf16 ''data: '' @ utf16 ''\"hi\"'') = Emit (JStr (utf16 ''hi'')) \<and>
   drain scalar_parse ((utf16 ''data: '' @ utf16 ''null'') @ 10 # []) = ([JNull], Some []) \<and>
   drain scalar_parse ((utf16 ''data: '' @ utf16 ''42'') @ 10 # []) = ([JNum 42], Some []) \<and>
   drain scalar_parse ((utf16 ''data: '' @ utf16 '' true '') @ 10 # []) =
     ([JBool True], Some []) \<and>
   drain scalar_parse ((utf16 ''data: '' @ utf16 ''\"hi\"'') @ 10 # []) =
     ([JStr (utf16 ''hi'')], Some []) \<and>
   decode utf8_decoder scalar_parse \<lparr>stream_chunks = [number_chunk], stream_error = None\<rparr> =
     \<lparr>yielded = [JNum 42], ended = Completed, pulled = 1\<rparr> \<and>
   final_line scalar_parse (utf16 ''data: '' @ utf16 ''42'') = [JNum 42] \<and>
   pair_parse (utf16 ''{\"a\":1}'') = Some (JObj [(''a'', JNum 1)]) \<and>
   process_line pair_parse (utf16 ''data:{\"a\":1}'') = Skip \<and>
   drain pair_parse (utf16 ''data:{\"a\":1}'' @ 10 # []) = ([], Some [])"
proof -
  note inst = any_json_value_emitted [where parse = scalar_parse and lenient = pair_parse
      and l = "utf16 ''data:{\"a\":1}''" and rest = "[]",
      OF scalar_facts(1,2) _ _ no_space_facts(1,2,3)]
  have p: "pair_parse (utf16 ''{\"a\":1}'') = Some (JObj [(''a'', JNum 1)])"
    by (simp add: pair_parse_def)
  have d: "drain scalar_parse ((utf16 ''data: '' @ utf16 ''42'') @ 10 # []) = ([JNum 42], Some [])"
    using inst [OF scalar_facts(4) no_space_facts(5)]
    by (simp only: drain_Nil fst_conv snd_conv)
  have stream: "decode utf8_decoder scalar_parse
      \<lparr>stream_chunks = [number_chunk], stream_error = None\<rparr> =
      \<lparr>yielded = [JNum 42], ended = Completed, pulled = 1\<rparr>"
    unfolding decode_def utf8_decoder_def
    by (simp add: number_chunk_text number_chunk_split d after_def final_line_def utf8_end_idle
        del: append_assoc)
  from inst [OF scalar_facts(3) no_space_facts(4)] inst [OF scalar_facts(4) no_space_facts(5)]
    inst [OF scalar_facts(5) no_space_facts(6)] inst [OF scalar_facts(6) no_space_facts(7)] p
    stream
  show ?thesis
    by (simp only: drain_Nil fst_conv snd_conv simp_thms)
qed

text \<open>
  C10. Built from one configuration with both retry parameters set, the two classes
  should give the same result, requests and delays for the same transport. They do
  when both numbers are other than zero (\<open>variants_agree_when_nonzero\<close>). With
  \<^verbatim>\<open>REQUEST_MAX_RETRIES\<close> set to 0, \<^verbatim>\<open>OpenAIApiService\<close> makes no retry, as
  configured, while \<^verbatim>\<open>OpenAIResponsesApiService\<close> computes \<^verbatim>\<open>0 || 3\<close> and retries;
  with \<^verbatim>\<open>REQUEST_BASE_DELAY\<close> set to 0 the first waits 0 ms and the second
  \<^verbatim>\<open>0 || 1000\<close> ms. The theorem evaluates both classes on a transport that answers
  429 once and then succeeds.
\<close>

theorem variants_differ_at_zero:
  "new_OpenAIApiService (retry_config 0 1000) = Inr (sample_service (retry_config 0 1000)) \<and>
   new_OpenAIResponsesApiService (retry_config 0 1000) = Inr (sample_service (retry_config 0 1000)) \<and>
   OpenAIApiService_callApi (sample_service (retry_config 0 1000)) (limited 1 JNull) 0
     ''/v1'' sample_body 0 = (Inl too_many, [Post ''/v1'' sample_body]) \<and>
   OpenAIResponsesApiService_callApi (sample_service (retry_config 0 1000)) (limited 1 JNull) 0
     ''/v1'' sample_body 0 =
     (Inr JNull, [Post ''/v1'' sample_body, Sleep (Some 1000), Post ''/v1'' sample_body]) \<and>
   OpenAIApiService_callApi (sample_service (retry_config 3 0)) (limited 1 JNull) 0
     ''/v1'' sample_body 0 =
     (Inr JNull, [Post ''/v1'' sample_body, Sleep (Some 0), Post ''/v1'' sample_body]) \<and>
   OpenAIResponsesApiService_callApi (sample_service (retry_config 3 0)) (limited 1 JNull) 0
     ''/v1'' sample_body 0 =
     (Inr JNull, [Post ''/v1'' sample_body, Sleep (Some 1000), Post ''/v1'' sample_body])"
proof -
  have cfg0: "REQUEST_MAX_RETRIES (svc_config (sample_service (retry_config 3 0))) = Some 3"
    "REQUEST_BASE_DELAY (svc_config (sample_service (retry_config 3 0))) = Some 0"
    by (simp_all add: sample_service_def retry_config_def unset_config_def)
  have last0: "callApi_from (Some 3) (Some 0) (limited (Suc 0) JNull) (Suc 0) ''/v1'' sample_body (Suc 0) =
      (Inr JNull, [Post ''/v1'' sample_body])"
    by (rule callApi_from_success [where post = "limited (Suc 0) JNull"]) (simp add: limited_def)
  have core0: "callApi_from (Some 3) (Some 0) (limited 1 JNull) 0 ''/v1'' sample_body 0 =
      (Inr JNull, [Post ''/v1'' sample_body, Sleep (Some 0), Post ''/v1'' sample_body])"
    using callApi_from_retry [where post = "limited 1 JNull" and k = 0 and err = too_many
        and rc = 0 and mr = "Some 3" and bd = "Some 0" and ep = "''/v1''" and body = sample_body]
    by (simp add: limited_def too_many_status js_lt_def last0 followed_def backoff_def)
  have cfg: "REQUEST_MAX_RETRIES (svc_config (sample_service (retry_config 0 1000))) = Some 0"
    "REQUEST_BASE_DELAY (svc_config (sample_service (retry_config 0 1000))) = Some 1000"
    by (simp_all add: sample_service_def retry_config_def unset_config_def)
  have core: "callApi_from (Some 0) (Some 1000) (limited 1 JNull) 0 ''/v1'' sample_body 0 =
      (Inl too_many, [Post ''/v1'' sample_body])"
    by (rule callApi_from_give_up [where post = "limited 1 JNull"])
      (simp_all add: limited_def js_lt_def)
  have last: "callApi_from (Some 3) (Some 1000) (limited (Suc 0) JNull) (Suc 0) ''/v1'' sample_body (Suc 0) =
      (Inr JNull, [Post ''/v1'' sample_body])"
    by (rule callApi_from_success [where post = "limited (Suc 0) JNull"]) (simp add: limited_def)
  have resp: "callApi_from (Some 3) (Some 1000) (limited 1 JNull) 0 ''/v1'' sample_body 0 =
      (Inr JNull, [Post ''/v1'' sample_body, Sleep (Some 1000), Post ''/v1'' sample_body])"
    using callApi_from_retry [where post = "limited 1 JNull" and k = 0 and err = too_many
        and rc = 0 and mr = "Some 3" and bd = "Some 1000" and ep = "''/v1''" and body = sample_body]
    by (simp add: limited_def too_many_status js_lt_def last followed_def backoff_def)
  show ?thesis
    using core resp core0
    by (simp add: new_core_sample new_responses_sample OpenAIApiService_callApi_def
        OpenAIResponsesApiService_callApi_def cfg cfg0 js_or_def)
qed

end
